theory Spec2Isabelle
  imports Complex_Main
begin

section \<open>Python strings\<close>

text \<open>
  Texts are Python \<open>str\<close> values restricted to ASCII, modelled as \<open>string\<close>.
  The character classes below are the ones Python's \<open>str\<close> methods and the \<open>re\<close>
  module use on ASCII code points: \<open>str.isspace\<close> and \<open>\s\<close> hold for the code points
  9-13, 28-31 and 32; \<open>\d\<close> for 0-9; \<open>\w\<close> for letters, digits and the underscore.
\<close>

definition is_space :: "char \<Rightarrow> bool" where
  "is_space c = (c \<in> set [CHR '' '', CHR 0x09, CHR 0x0A, CHR 0x0B, CHR 0x0C, CHR 0x0D,
                            CHR 0x1C, CHR 0x1D, CHR 0x1E, CHR 0x1F])"

definition is_digit :: "char \<Rightarrow> bool" where
  "is_digit c = (c \<in> set ''0123456789'')"

definition is_lower :: "char \<Rightarrow> bool" where
  "is_lower c = (c \<in> set ''abcdefghijklmnopqrstuvwxyz'')"

definition is_upper :: "char \<Rightarrow> bool" where
  "is_upper c = (c \<in> set ''ABCDEFGHIJKLMNOPQRSTUVWXYZ'')"

definition is_word :: "char \<Rightarrow> bool" where
  "is_word c = (is_lower c \<or> is_upper c \<or> is_digit c \<or> c = CHR ''_'')"

definition lower_char :: "char \<Rightarrow> char" where
  "lower_char c =
     (case map_of (zip ''ABCDEFGHIJKLMNOPQRSTUVWXYZ'' ''abcdefghijklmnopqrstuvwxyz'') c of
        Some d \<Rightarrow> d | None \<Rightarrow> c)"

definition upper_char :: "char \<Rightarrow> char" where
  "upper_char c =
     (case map_of (zip ''abcdefghijklmnopqrstuvwxyz'' ''ABCDEFGHIJKLMNOPQRSTUVWXYZ'') c of
        Some d \<Rightarrow> d | None \<Rightarrow> c)"

text \<open>\<open>str.lower()\<close>\<close>

definition lower :: "string \<Rightarrow> string" where
  "lower s = map lower_char s"

text \<open>
  \<open>str.title()\<close>: a cased character is upper-cased when the character before it is
  not cased, and lower-cased otherwise; other characters are kept.
\<close>

fun title_from :: "bool \<Rightarrow> string \<Rightarrow> string" where
  "title_from prev_cased [] = []"
| "title_from prev_cased (c # cs) =
     (if is_lower c \<or> is_upper c
      then (if prev_cased then lower_char c else upper_char c) # title_from True cs
      else c # title_from False cs)"

definition title :: "string \<Rightarrow> string" where
  "title s = title_from False s"

text \<open>\<open>str.strip()\<close>\<close>

definition strip :: "string \<Rightarrow> string" where
  "strip s = rev (dropWhile is_space (rev (dropWhile is_space s)))"

text \<open>\<open>str.split('\n')\<close>: the pieces between newlines, empty pieces included.\<close>

fun split_acc :: "char \<Rightarrow> string \<Rightarrow> string \<Rightarrow> string list" where
  "split_acc sep cur [] = [rev cur]"
| "split_acc sep cur (c # cs) =
     (if c = sep then rev cur # split_acc sep [] cs else split_acc sep (c # cur) cs)"

definition split_nl :: "string \<Rightarrow> string list" where
  "split_nl s = split_acc (CHR 0x0A) [] s"

text \<open>\<open>sub in s\<close> for strings.\<close>

fun contains :: "string \<Rightarrow> string \<Rightarrow> bool" where
  "contains sub [] = (sub = [])"
| "contains sub (c # cs) = (take (length sub) (c # cs) = sub \<or> contains sub cs)"

section \<open>Regular expressions with Python's backtracking order\<close>

text \<open>
  The patterns of the program use literals, character classes, quantifiers over a single
  character class (greedy or lazy), sequence, alternation, optional parts, capturing
  groups and the anchors \<open>^\<close>, \<open>$\<close> and \<open>\b\<close>.
\<close>

datatype cls =
    Digit                 \<comment> \<open>\<open>\d\<close>\<close>
  | Space                 \<comment> \<open>\<open>\s\<close>\<close>
  | Word                  \<comment> \<open>\<open>\w\<close>\<close>
  | AnyChar               \<comment> \<open>\<open>.\<close>: every character but the newline\<close>
  | Range char char       \<comment> \<open>\<open>[a-z]\<close>\<close>
  | OneOf string          \<comment> \<open>\<open>[abc]\<close>\<close>
  | Or cls cls            \<comment> \<open>union inside a bracket\<close>
  | Neg cls               \<comment> \<open>\<open>[^...]\<close>\<close>

fun in_cls :: "cls \<Rightarrow> char \<Rightarrow> bool" where
  "in_cls Digit c = is_digit c"
| "in_cls Space c = is_space c"
| "in_cls Word c = is_word c"
| "in_cls AnyChar c = (c \<noteq> CHR 0x0A)"
| "in_cls (Range a b) c = ((of_char a :: nat) \<le> of_char c \<and> (of_char c :: nat) \<le> of_char b)"
| "in_cls (OneOf s) c = (c \<in> set s)"
| "in_cls (Or k l) c = (in_cls k c \<or> in_cls l c)"
| "in_cls (Neg k) c = (\<not> in_cls k c)"

text \<open>With \<open>re.IGNORECASE\<close> a character matches when one of its case variants does.\<close>

definition cls_ok :: "bool \<Rightarrow> cls \<Rightarrow> char \<Rightarrow> bool" where
  "cls_ok ic k c = (in_cls k c \<or> (ic \<and> (in_cls k (lower_char c) \<or> in_cls k (upper_char c))))"

definition lit_ok :: "bool \<Rightarrow> string \<Rightarrow> string \<Rightarrow> bool" where
  "lit_ok ic l w = (if ic then map lower_char l = map lower_char w else l = w)"

datatype re =
    Lit string                       \<comment> \<open>literal text\<close>
  | Cls cls                          \<comment> \<open>one character of a class\<close>
  | Rep cls nat "nat option" bool    \<comment> \<open>class\<open>{lo,hi}\<close>; the flag is True for greedy\<close>
  | Seq re re
  | Alt re re
  | Opt re                           \<comment> \<open>\<open>r?\<close>, greedy\<close>
  | Grp nat re                       \<comment> \<open>capturing group with its number\<close>
  | Bol                              \<comment> \<open>\<open>^\<close>\<close>
  | Eol                              \<comment> \<open>\<open>$\<close>\<close>
  | WordB                            \<comment> \<open>\<open>\b\<close>\<close>

abbreviation Star :: "cls \<Rightarrow> re" where "Star k \<equiv> Rep k 0 None True"
abbreviation Plus :: "cls \<Rightarrow> re" where "Plus k \<equiv> Rep k 1 None True"
abbreviation LazyPlus :: "cls \<Rightarrow> re" where "LazyPlus k \<equiv> Rep k 1 None False"

fun seqs :: "re list \<Rightarrow> re" where
  "seqs [] = Lit []"
| "seqs [r] = r"
| "seqs (r # rs) = Seq r (seqs rs)"

fun alts :: "re list \<Rightarrow> re" where
  "alts [] = Lit []"
| "alts [r] = r"
| "alts (r # rs) = Alt r (alts rs)"

text \<open>
  A matcher state: the text before the current position (reversed), the text from the
  current position on, and the groups captured so far (the latest capture first).
\<close>

record mstate =
  bef :: string
  rest :: string
  caps :: "(nat \<times> string) list"

definition advance :: "nat \<Rightarrow> mstate \<Rightarrow> mstate" where
  "advance n s = s\<lparr>bef := rev (take n (rest s)) @ bef s, rest := drop n (rest s)\<rparr>"

definition consumed :: "mstate \<Rightarrow> mstate \<Rightarrow> string" where
  "consumed s s' = take (length (rest s) - length (rest s')) (rest s)"

definition set_group :: "nat \<Rightarrow> mstate \<Rightarrow> mstate \<Rightarrow> mstate" where
  "set_group k s s' = s'\<lparr>caps := (k, consumed s s') # caps s'\<rparr>"

definition at_boundary :: "mstate \<Rightarrow> bool" where
  "at_boundary s =
     ((case bef s of [] \<Rightarrow> False | c # _ \<Rightarrow> is_word c) \<noteq>
      (case rest s of [] \<Rightarrow> False | c # _ \<Rightarrow> is_word c))"

text \<open>
  \<open>ms ic r s\<close> lists the states in which \<open>r\<close> can stop when started in \<open>s\<close>, in the order
  in which a backtracking matcher tries them: a greedy quantifier tries the longest run
  first, a lazy one the shortest, an alternation its left branch first. The head of the
  list is the match that \<open>re\<close> reports.
\<close>

fun ms :: "bool \<Rightarrow> re \<Rightarrow> mstate \<Rightarrow> mstate list" where
  "ms ic (Lit l) s =
     (if length l \<le> length (rest s) \<and> lit_ok ic l (take (length l) (rest s))
      then [advance (length l) s] else [])"
| "ms ic (Cls k) s =
     (case rest s of [] \<Rightarrow> [] | c # _ \<Rightarrow> if cls_ok ic k c then [advance 1 s] else [])"
| "ms ic (Rep k lo hi greedy) s =
     (let n = length (takeWhile (cls_ok ic k) (rest s));
          m = (case hi of None \<Rightarrow> n | Some h \<Rightarrow> min h n);
          counts = (if greedy then rev [lo..<Suc m] else [lo..<Suc m])
      in map (\<lambda>i. advance i s) counts)"
| "ms ic (Seq a b) s = concat (map (ms ic b) (ms ic a s))"
| "ms ic (Alt a b) s = ms ic a s @ ms ic b s"
| "ms ic (Opt a) s = ms ic a s @ [s]"
| "ms ic (Grp k a) s = map (set_group k s) (ms ic a s)"
| "ms ic Bol s = (if bef s = [] then [s] else [])"
| "ms ic Eol s = (if rest s = [] \<or> rest s = [CHR 0x0A] then [s] else [])"
| "ms ic WordB s = (if at_boundary s then [s] else [])"

text \<open>A match object: where the match starts and ends, and its groups.\<close>

record rmatch =
  m_start :: nat
  m_end :: nat
  m_groups :: "(nat \<times> string) list"

definition group :: "rmatch \<Rightarrow> nat \<Rightarrow> string option" where
  "group m k = map_of (m_groups m) k"

definition match_at :: "bool \<Rightarrow> re \<Rightarrow> string \<Rightarrow> string \<Rightarrow> rmatch option" where
  "match_at ic r b w =
     (case ms ic r \<lparr>bef = b, rest = w, caps = []\<rparr> of
        [] \<Rightarrow> None
      | s' # _ \<Rightarrow> Some \<lparr>m_start = length b, m_end = length (bef s'), m_groups = caps s'\<rparr>)"

text \<open>\<open>re.search\<close>: the match at the leftmost position that has one.\<close>

fun search_from :: "bool \<Rightarrow> re \<Rightarrow> string \<Rightarrow> string \<Rightarrow> rmatch option" where
  "search_from ic r b [] = match_at ic r b []"
| "search_from ic r b (c # cs) =
     (case match_at ic r b (c # cs) of
        Some m \<Rightarrow> Some m
      | None \<Rightarrow> search_from ic r (c # b) cs)"

definition re_search :: "bool \<Rightarrow> re \<Rightarrow> string \<Rightarrow> rmatch option" where
  "re_search ic r s = search_from ic r [] s"

text \<open>
  \<open>re.sub\<close> with a constant replacement: the matches are replaced from left to right;
  after an empty match the next character is copied. A match never ends beyond the
  text (\<open>match_at_span\<close> below), so the bound \<open>n \<le> length (c # cs)\<close> always holds; it is
  written out to make the recursion visibly terminate.
\<close>

function sub_from :: "bool \<Rightarrow> re \<Rightarrow> string \<Rightarrow> string \<Rightarrow> string \<Rightarrow> string" where
  "sub_from ic r repl b [] = (case match_at ic r b [] of None \<Rightarrow> [] | Some m \<Rightarrow> repl)"
| "sub_from ic r repl b (c # cs) =
     (case match_at ic r b (c # cs) of
        None \<Rightarrow> c # sub_from ic r repl (c # b) cs
      | Some m \<Rightarrow>
          (let n = m_end m - length b in
           if 0 < n \<and> n \<le> length (c # cs)
           then repl @ sub_from ic r repl (rev (take n (c # cs)) @ b) (drop n (c # cs))
           else repl @ c # sub_from ic r repl (c # b) cs))"
  by pat_completeness auto
termination
  by (relation "measure (\<lambda>(ic, r, repl, b, w). length w)") auto

definition re_sub :: "bool \<Rightarrow> re \<Rightarrow> string \<Rightarrow> string \<Rightarrow> string" where
  "re_sub ic r repl s = sub_from ic r repl [] s"

section \<open>What a pattern can match\<close>

text \<open>
  The words of a pattern, after the documentation of \<open>re\<close>: \<open>lang ic r\<close> holds the strings
  that \<open>r\<close> can consume (an anchor consumes nothing; whether it holds depends on the
  context and is not part of the language). The language is used to state what the
  matcher finds; the program runs \<open>ms\<close>.
\<close>

fun lang :: "bool \<Rightarrow> re \<Rightarrow> string set" where
  "lang ic (Lit l) = {w. length w = length l \<and> lit_ok ic l w}"
| "lang ic (Cls k) = {w. \<exists>c. w = [c] \<and> cls_ok ic k c}"
| "lang ic (Rep k lo hi greedy) =
     {w. list_all (cls_ok ic k) w \<and> lo \<le> length w \<and>
         (case hi of None \<Rightarrow> True | Some h \<Rightarrow> length w \<le> h)}"
| "lang ic (Seq a b) = {w. \<exists>u v. w = u @ v \<and> u \<in> lang ic a \<and> v \<in> lang ic b}"
| "lang ic (Alt a b) = lang ic a \<union> lang ic b"
| "lang ic (Opt a) = insert [] (lang ic a)"
| "lang ic (Grp k a) = lang ic a"
| "lang ic Bol = {[]}"
| "lang ic Eol = {[]}"
| "lang ic WordB = {[]}"

text \<open>A pattern without anchors.\<close>

fun anchor_free :: "re \<Rightarrow> bool" where
  "anchor_free (Seq a b) = (anchor_free a \<and> anchor_free b)"
| "anchor_free (Alt a b) = (anchor_free a \<and> anchor_free b)"
| "anchor_free (Opt a) = anchor_free a"
| "anchor_free (Grp k a) = anchor_free a"
| "anchor_free Bol = False"
| "anchor_free Eol = False"
| "anchor_free WordB = False"
| "anchor_free r = True"

text \<open>The capturing groups of a pattern with their bodies.\<close>

fun grps :: "re \<Rightarrow> (nat \<times> re) list" where
  "grps (Grp k a) = (k, a) # grps a"
| "grps (Seq a b) = grps a @ grps b"
| "grps (Alt a b) = grps a @ grps b"
| "grps (Opt a) = grps a"
| "grps r = []"

text \<open>Group \<open>k\<close> takes part in every match of the pattern.\<close>

fun sets_grp :: "nat \<Rightarrow> re \<Rightarrow> bool" where
  "sets_grp k (Grp j a) = (j = k \<or> sets_grp k a)"
| "sets_grp k (Seq a b) = (sets_grp k a \<or> sets_grp k b)"
| "sets_grp k (Alt a b) = (sets_grp k a \<and> sets_grp k b)"
| "sets_grp k r = False"

text \<open>\<open>occurs_in ic r t\<close>: some substring of \<open>t\<close> is a word of the pattern.\<close>

definition occurs_in :: "bool \<Rightarrow> re \<Rightarrow> string \<Rightarrow> bool" where
  "occurs_in ic r t = (\<exists>pre w post. t = pre @ w @ post \<and> w \<in> lang ic r)"

section \<open>Numbers and errors\<close>

datatype py_error = ValueError | TypeError | AttributeError | ZeroDivisionError

text \<open>
  Python floats are modelled by the exact rational value of the decimal literal; rounding
  and overflow of IEEE doubles are outside the model. \<open>float(s)\<close> strips white space,
  reads an optional sign and a decimal literal with at most one point and at least one
  digit, and raises \<open>ValueError\<close> on every other string of the model (exponents,
  underscores, \<open>inf\<close> and \<open>nan\<close> are not modelled: no pattern of the program captures them).
\<close>

definition digit_of :: "char \<Rightarrow> nat" where
  "digit_of c = of_char c - 48"

definition digits_val :: "string \<Rightarrow> nat" where
  "digits_val s = foldl (\<lambda>a c. 10 * a + digit_of c) 0 s"

definition unsigned_float :: "string \<Rightarrow> py_error + rat" where
  "unsigned_float u =
     (let ip = takeWhile is_digit u; r = dropWhile is_digit u in
      case r of
        [] \<Rightarrow> if ip = [] then Inl ValueError else Inr (of_nat (digits_val ip))
      | c # fp \<Rightarrow>
          if c = CHR ''.'' \<and> list_all is_digit fp \<and> (ip \<noteq> [] \<or> fp \<noteq> [])
          then Inr (of_nat (digits_val ip) + of_nat (digits_val fp) / 10 ^ length fp)
          else Inl ValueError)"

definition py_float :: "string \<Rightarrow> py_error + rat" where
  "py_float s =
     (case strip s of
        [] \<Rightarrow> Inl ValueError
      | c # u \<Rightarrow>
          if c = CHR ''-'' then map_sum id uminus (unsigned_float u)
          else if c = CHR ''+'' then unsigned_float u
          else unsigned_float (c # u))"

text \<open>\<open>float(match.group(k))\<close>: a group that took no part in the match is \<open>None\<close>.\<close>

definition float_group :: "rmatch \<Rightarrow> nat \<Rightarrow> py_error + rat" where
  "float_group m k = (case group m k of None \<Rightarrow> Inl TypeError | Some w \<Rightarrow> py_float w)"

section \<open>The scan path: \<open>ReceiptProcessor\<close>\<close>

record item =
  name :: string
  quantity :: rat
  unit_price :: rat
  total_price :: rat

definition scan_store_patterns :: "(string \<times> re) list" where
  "scan_store_patterns =
     [(''walmart'', Alt (Lit ''walmart'') (Lit ''wal-mart'')),
      (''kroger'', Lit ''kroger''),
      (''target'', Lit ''target''),
      (''costco'', Lit ''costco''),
      (''whole foods'', seqs [Lit ''whole'', Star Space, Lit ''foods'']),
      (''trader joe'', seqs [Lit ''trader'', Star Space, Lit ''joe'']),
      (''safeway'', Lit ''safeway''),
      (''publix'', Lit ''publix''),
      (''albertsons'', Lit ''albertsons''),
      (''aldi'', Lit ''aldi'')]"

text \<open>The loop of \<open>_extract_store_name\<close> and of \<open>_identify_store\<close> over the pattern table.\<close>

fun first_store :: "(string \<times> re) list \<Rightarrow> string \<Rightarrow> string" where
  "first_store [] text_lower = ''Unknown Store''"
| "first_store ((store, pattern) # ps) text_lower =
     (if re_search False pattern text_lower \<noteq> None then title store
      else first_store ps text_lower)"

definition extract_store_name :: "string \<Rightarrow> string" where
  "extract_store_name txt = first_store scan_store_patterns (lower txt)"

text \<open>
  The amount \<^verbatim>\<open>\d+\.\d{2}\<close> that every item and totals pattern ends with, and the
  patterns of \<open>_extract_items\<close>: \<open>price_pattern\<close> is \<^verbatim>\<open>[\$]?\s*(\d+\.\d{2})\s*$\<close> and
  \<open>quantity_pattern\<close> is \<^verbatim>\<open>(\d+)\s*@\s*[\$]?(\d+\.\d{2})\<close>.
\<close>

definition number :: re where
  "number = seqs [Plus Digit, Lit ''.'', Rep Digit 2 (Some 2) True]"

definition price_pattern :: re where
  "price_pattern = seqs [Opt (Cls (OneOf ''$'')), Star Space, Grp 1 number, Star Space, Eol]"

definition quantity_pattern :: re where
  "quantity_pattern =
     seqs [Grp 1 (Plus Digit), Star Space, Lit ''@'', Star Space, Opt (Cls (OneOf ''$'')),
           Grp 2 number]"

definition scan_skip_list :: "string list" where
  "scan_skip_list =
     [''total'', ''subtotal'', ''tax'', ''balance'', ''payment'', ''change'', ''visa'',
      ''mastercard'', ''cash'', ''credit'', ''debit'', ''***'', ''---'', ''thank you'',
      ''receipt'', ''store'', ''date'']"

definition skipped :: "string list \<Rightarrow> string \<Rightarrow> bool" where
  "skipped skips line = list_ex (\<lambda>skip. contains skip (lower line)) skips"

text \<open>
  The scan path's \<open>_clean_item_name\<close>: \<^verbatim>\<open>\s+\<close> becomes one space, the characters of
  \<^verbatim>\<open>[^\w\s-]\<close> are removed, the result is stripped and title-cased.
\<close>

definition scan_clean_item_name :: "string \<Rightarrow> string" where
  "scan_clean_item_name nm =
     (let n1 = re_sub False (Plus Space) '' '' nm;
          n2 = re_sub False (Cls (Neg (Or Word (Or Space (OneOf ''-''))))) [] n1;
          n3 = strip n2
      in title n3)"

text \<open>
  The body of the loop of \<open>_extract_items\<close> for one line: an error, no item, or the item
  that is appended.
\<close>

definition scan_line :: "string \<Rightarrow> py_error + item option" where
  "scan_line line =
     (if skipped scan_skip_list line then Inr None
      else case re_search False quantity_pattern line of
        Some qty_match \<Rightarrow>
          (case float_group qty_match 1 of Inl e \<Rightarrow> Inl e | Inr qty \<Rightarrow>
           case float_group qty_match 2 of Inl e \<Rightarrow> Inl e | Inr unit \<Rightarrow>
           let tot = qty * unit;
               nm = strip (re_sub False quantity_pattern [] line)
           in if nm \<noteq> [] \<and> length nm > 2
              then Inr (Some \<lparr>name = scan_clean_item_name nm, quantity = qty,
                               unit_price = unit, total_price = tot\<rparr>)
              else Inr None)
      | None \<Rightarrow>
          (case re_search False price_pattern line of
             Some price_match \<Rightarrow>
               (case float_group price_match 1 of Inl e \<Rightarrow> Inl e | Inr price \<Rightarrow>
                let nm = strip (re_sub False price_pattern [] line)
                in if nm \<noteq> [] \<and> length nm > 2 \<and> price > 0
                   then Inr (Some \<lparr>name = scan_clean_item_name nm, quantity = 1,
                                    unit_price = price, total_price = price\<rparr>)
                   else Inr None)
           | None \<Rightarrow> Inr None))"

fun extract_items_loop :: "item list \<Rightarrow> string list \<Rightarrow> py_error + item list" where
  "extract_items_loop items [] = Inr items"
| "extract_items_loop items (line # lines) =
     (case scan_line line of
        Inl e \<Rightarrow> Inl e
      | Inr None \<Rightarrow> extract_items_loop items lines
      | Inr (Some it) \<Rightarrow> extract_items_loop (items @ [it]) lines)"

definition extract_items :: "string list \<Rightarrow> py_error + item list" where
  "extract_items lines = extract_items_loop [] lines"

text \<open>
  The patterns of \<open>_extract_totals\<close>: \<^verbatim>\<open>(?:total|amount due|balance)[\s:]*[\$]?\s*(\d+\.\d{2})\<close>
  and \<^verbatim>\<open>(?:tax|sales tax)[\s:]*[\$]?\s*(\d+\.\d{2})\<close>.
\<close>

definition scan_total_pattern :: re where
  "scan_total_pattern =
     seqs [alts [Lit ''total'', Lit ''amount due'', Lit ''balance''],
           Star (Or Space (OneOf '':'')), Opt (Cls (OneOf ''$'')), Star Space, Grp 1 number]"

definition scan_tax_pattern :: re where
  "scan_tax_pattern =
     seqs [alts [Lit ''tax'', Lit ''sales tax''],
           Star (Or Space (OneOf '':'')), Opt (Cls (OneOf ''$'')), Star Space, Grp 1 number]"

text \<open>One search of \<open>_extract_totals\<close>: the amount of the match, or the default 0.0.\<close>

definition amount_or_zero :: "re \<Rightarrow> string \<Rightarrow> py_error + rat" where
  "amount_or_zero pattern text_lower =
     (case re_search False pattern text_lower of
        None \<Rightarrow> Inr 0
      | Some m \<Rightarrow> float_group m 1)"

definition extract_totals :: "string \<Rightarrow> py_error + (rat \<times> rat)" where
  "extract_totals txt =
     (case amount_or_zero scan_total_pattern (lower txt) of Inl e \<Rightarrow> Inl e | Inr tot \<Rightarrow>
      case amount_or_zero scan_tax_pattern (lower txt) of Inl e \<Rightarrow> Inl e | Inr tax \<Rightarrow>
      Inr (tot, tax))"

section \<open>The classifier: \<open>ItemCategorizer\<close>\<close>

definition categories :: "(string \<times> string list) list" where
  "categories =
   [(''Produce'',
      [''apple'', ''banana'', ''orange'', ''grape'', ''berry'', ''strawberry'',
       ''lettuce'', ''tomato'', ''potato'', ''onion'', ''carrot'', ''broccoli'',
       ''spinach'', ''celery'', ''pepper'', ''avocado'', ''cucumber'', ''fruit'',
       ''vegetable'', ''salad'', ''melon'', ''peach'', ''pear'', ''plum'', ''mango'',
       ''pineapple'', ''kale'', ''cabbage'', ''squash'', ''zucchini'', ''corn'']),
    (''Meat & Seafood'',
      [''chicken'', ''beef'', ''pork'', ''turkey'', ''fish'', ''salmon'', ''tuna'',
       ''shrimp'', ''meat'', ''steak'', ''ground'', ''bacon'', ''sausage'', ''ham'',
       ''lamb'', ''tilapia'', ''cod'', ''ribeye'', ''sirloin'', ''brisket'']),
    (''Dairy & Eggs'',
      [''milk'', ''cheese'', ''yogurt'', ''butter'', ''cream'', ''egg'',
       ''sour cream'', ''cottage'', ''cheddar'', ''mozzarella'', ''parmesan'',
       ''ice cream'', ''whipped'', ''half and half'', ''dairy'']),
    (''Bakery & Bread'',
      [''bread'', ''bagel'', ''roll'', ''bun'', ''baguette'', ''croissant'',
       ''muffin'', ''donut'', ''cake'', ''cookie'', ''pastry'', ''tortilla'',
       ''wrap'', ''pita'', ''bakery'']),
    (''Pantry & Canned'',
      [''pasta'', ''rice'', ''bean'', ''sauce'', ''soup'', ''cereal'', ''oats'',
       ''flour'', ''sugar'', ''salt'', ''pepper'', ''spice'', ''oil'', ''vinegar'',
       ''can'', ''canned'', ''jar'', ''box'', ''bag'', ''chips'', ''crackers'',
       ''peanut butter'', ''jelly'', ''jam'', ''honey'', ''syrup'']),
    (''Beverages'',
      [''water'', ''juice'', ''soda'', ''coffee'', ''tea'', ''beer'', ''wine'',
       ''alcohol'', ''drink'', ''beverage'', ''lemonade'', ''cola'', ''sprite'',
       ''energy drink'', ''sports drink'', ''smoothie'']),
    (''Frozen'',
      [''frozen'', ''ice'', ''pizza'', ''freezer'', ''popsicle'', ''ice cream'']),
    (''Snacks & Sweets'',
      [''candy'', ''chocolate'', ''snack'', ''chip'', ''popcorn'', ''pretzel'',
       ''cracker'', ''granola'', ''bar'', ''gum'', ''mint'', ''cookie'']),
    (''Condiments & Sauces'',
      [''ketchup'', ''mustard'', ''mayo'', ''mayonnaise'', ''dressing'',
       ''salsa'', ''hot sauce'', ''bbq'', ''marinade'', ''soy sauce'',
       ''worcestershire'', ''relish'', ''pickle'']),
    (''Other'', [])]"

text \<open>\<open>re.search(r'\b' + re.escape(keyword) + r'\b', item_lower)\<close>\<close>

definition keyword_hit :: "string \<Rightarrow> string \<Rightarrow> bool" where
  "keyword_hit item_lower keyword =
     (re_search False (seqs [WordB, Lit keyword, WordB]) item_lower \<noteq> None)"

text \<open>The inner loop over the keywords of one category.\<close>

fun any_keyword :: "string \<Rightarrow> string list \<Rightarrow> bool" where
  "any_keyword item_lower [] = False"
| "any_keyword item_lower (keyword # kws) =
     (if keyword_hit item_lower keyword then True else any_keyword item_lower kws)"

text \<open>The outer loop over the categories.\<close>

fun first_category :: "string \<Rightarrow> (string \<times> string list) list \<Rightarrow> string" where
  "first_category item_lower [] = ''Other''"
| "first_category item_lower ((category, keywords) # cs) =
     (if category = ''Other'' then first_category item_lower cs
      else if any_keyword item_lower keywords then category
      else first_category item_lower cs)"

definition categorize_item :: "string \<Rightarrow> string" where
  "categorize_item item_name =
     (if item_name = [] then ''Other'' else first_category (lower item_name) categories)"

text \<open>
  The item row that \<open>save_receipt_to_db\<close> stores: the extracted fields and the category
  of the item's name.
\<close>

record item_record =
  rec_name :: string
  rec_quantity :: rat
  rec_unit_price :: rat
  rec_total_price :: rat
  rec_category :: string

definition to_record :: "item \<Rightarrow> item_record" where
  "to_record it =
     \<lparr>rec_name = name it, rec_quantity = quantity it, rec_unit_price = unit_price it,
      rec_total_price = total_price it, rec_category = categorize_item (name it)\<rparr>"

section \<open>Dates: \<open>datetime.strptime\<close> and \<open>_extract_date\<close>\<close>

record datetime =
  dt_year :: nat
  dt_month :: nat
  dt_day :: nat
  dt_hour :: nat
  dt_minute :: nat
  dt_second :: nat

text \<open>The directives of a \<open>strptime\<close> format, literal characters, and white space.\<close>

datatype directive = Dm | Dd | DY | Dy | Db | DB | DLit string | DSpace

definition month_abbrs :: "string list" where
  "month_abbrs = [''jan'', ''feb'', ''mar'', ''apr'', ''may'', ''jun'',
                  ''jul'', ''aug'', ''sep'', ''oct'', ''nov'', ''dec'']"

definition month_names :: "string list" where
  "month_names = [''january'', ''february'', ''march'', ''april'', ''may'', ''june'', ''july'',
                  ''august'', ''september'', ''october'', ''november'', ''december'']"

text \<open>
  The regular expression that \<open>_strptime\<close> builds for a directive (with the month names
  of the C locale, the longest names first); the groups are numbered 1 for \<open>%d\<close>, 2 for
  \<open>%m\<close>, 3 for \<open>%Y\<close>, 4 for \<open>%y\<close>, 5 for \<open>%b\<close> and 6 for \<open>%B\<close>. White space in a format
  stands for \<open>\s+\<close>.
\<close>

fun directive_re :: "directive \<Rightarrow> re" where
  "directive_re Dd =
     Grp 1 (alts [Seq (Lit ''3'') (Cls (Range CHR ''0'' CHR ''1'')),
                  Seq (Cls (Range CHR ''1'' CHR ''2'')) (Cls Digit),
                  Seq (Lit ''0'') (Cls (Range CHR ''1'' CHR ''9'')),
                  Cls (Range CHR ''1'' CHR ''9''),
                  Seq (Lit '' '') (Cls (Range CHR ''1'' CHR ''9''))])"
| "directive_re Dm =
     Grp 2 (alts [Seq (Lit ''1'') (Cls (Range CHR ''0'' CHR ''2'')),
                  Seq (Lit ''0'') (Cls (Range CHR ''1'' CHR ''9'')),
                  Cls (Range CHR ''1'' CHR ''9'')])"
| "directive_re DY = Grp 3 (Rep Digit 4 (Some 4) True)"
| "directive_re Dy = Grp 4 (Rep Digit 2 (Some 2) True)"
| "directive_re Db = Grp 5 (alts (map Lit month_abbrs))"
| "directive_re DB =
     Grp 6 (alts (map Lit [''september'', ''february'', ''november'', ''december'', ''january'',
                           ''october'', ''august'', ''march'', ''april'', ''june'', ''july'',
                           ''may'']))"
| "directive_re (DLit l) = Lit l"
| "directive_re DSpace = Plus Space"

text \<open>\<open>int(s)\<close> on the digit strings that the directive groups capture.\<close>

definition py_int :: "string \<Rightarrow> nat" where
  "py_int w = digits_val (strip w)"

fun index_of :: "string \<Rightarrow> string list \<Rightarrow> nat option" where
  "index_of w [] = None"
| "index_of w (x # xs) = (if w = x then Some 0 else map_option Suc (index_of w xs))"

definition is_leap :: "nat \<Rightarrow> bool" where
  "is_leap y = (y mod 4 = 0 \<and> (y mod 100 \<noteq> 0 \<or> y mod 400 = 0))"

definition days_in_month :: "nat \<Rightarrow> nat \<Rightarrow> nat" where
  "days_in_month y m =
     (if m = 2 then (if is_leap y then 29 else 28)
      else if m \<in> set [4, 6, 9, 11] then 30 else 31)"

text \<open>
  \<open>datetime.strptime(data, fmt)\<close>: the format's expression must match at the start of
  the data (ignoring case) and use all of it, and the fields must form a date of the
  calendar; otherwise \<open>ValueError\<close>. A two-digit year up to 68 is in 2000-2068, a
  larger one in 1969-1999.
\<close>

definition strptime :: "string \<Rightarrow> directive list \<Rightarrow> py_error + datetime" where
  "strptime data fmt =
     (case match_at True (seqs (map directive_re fmt)) [] data of
        None \<Rightarrow> Inl ValueError
      | Some found \<Rightarrow>
          if m_end found \<noteq> length data then Inl ValueError
          else
            (let y = (case group found 3 of
                        Some w \<Rightarrow> Some (py_int w)
                      | None \<Rightarrow>
                          (case group found 4 of
                             Some w \<Rightarrow> Some (if py_int w \<le> 68 then py_int w + 2000
                                               else py_int w + 1900)
                           | None \<Rightarrow> None));
                 m = (case group found 2 of
                        Some w \<Rightarrow> Some (py_int w)
                      | None \<Rightarrow>
                          (case group found 5 of
                             Some w \<Rightarrow> map_option Suc (index_of (lower w) month_abbrs)
                           | None \<Rightarrow>
                               (case group found 6 of
                                  Some w \<Rightarrow> map_option Suc (index_of (lower w) month_names)
                                | None \<Rightarrow> None)));
                 d = map_option py_int (group found 1)
             in case (y, m, d) of
                  (Some yy, Some mm, Some dd) \<Rightarrow>
                    if 1 \<le> yy \<and> 1 \<le> mm \<and> mm \<le> 12 \<and> 1 \<le> dd \<and> dd \<le> days_in_month yy mm
                    then Inr \<lparr>dt_year = yy, dt_month = mm, dt_day = dd,
                              dt_hour = 0, dt_minute = 0, dt_second = 0\<rparr>
                    else Inl ValueError
                | _ \<Rightarrow> Inl ValueError))"

text \<open>
  The formats, in the order of the source: \<^verbatim>\<open>%m/%d/%Y, %m-%d-%Y, %m/%d/%y, %m-%d-%y, %Y-%m-%d,\<close>
  \<^verbatim>\<open>%Y/%m/%d, %d %b %Y, %d %B %Y\<close>.
\<close>

definition date_formats :: "directive list list" where
  "date_formats =
     [[Dm, DLit ''/'', Dd, DLit ''/'', DY],
      [Dm, DLit ''-'', Dd, DLit ''-'', DY],
      [Dm, DLit ''/'', Dd, DLit ''/'', Dy],
      [Dm, DLit ''-'', Dd, DLit ''-'', Dy],
      [DY, DLit ''-'', Dm, DLit ''-'', Dd],
      [DY, DLit ''/'', Dm, DLit ''/'', Dd],
      [Dd, DSpace, Db, DSpace, DY],
      [Dd, DSpace, DB, DSpace, DY]]"

text \<open>
  The patterns of \<open>_extract_date\<close>: \<^verbatim>\<open>(\d{1,2}[-/]\d{1,2}[-/]\d{2,4})\<close>,
  \<^verbatim>\<open>(\d{4}[-/]\d{1,2}[-/]\d{1,2})\<close> and
  \<^verbatim>\<open>(\d{1,2}\s+(?:jan|feb|mar|apr|may|jun|jul|aug|sep|oct|nov|dec)[a-z]*\s+\d{2,4})\<close>.
\<close>

definition date_patterns :: "re list" where
  "date_patterns =
     [Grp 1 (seqs [Rep Digit 1 (Some 2) True, Cls (OneOf ''-/''), Rep Digit 1 (Some 2) True,
                   Cls (OneOf ''-/''), Rep Digit 2 (Some 4) True]),
      Grp 1 (seqs [Rep Digit 4 (Some 4) True, Cls (OneOf ''-/''), Rep Digit 1 (Some 2) True,
                   Cls (OneOf ''-/''), Rep Digit 1 (Some 2) True]),
      Grp 1 (seqs [Rep Digit 1 (Some 2) True, Plus Space, alts (map Lit month_abbrs),
                   Star (Range CHR ''a'' CHR ''z''), Plus Space, Rep Digit 2 (Some 4) True])]"

text \<open>The inner loop of \<open>_extract_date\<close>: the first format under which the string parses.\<close>

fun try_formats :: "string \<Rightarrow> directive list list \<Rightarrow> datetime option" where
  "try_formats date_str [] = None"
| "try_formats date_str (fmt # fmts) =
     (case strptime date_str fmt of
        Inr d \<Rightarrow> Some d
      | Inl e \<Rightarrow> try_formats date_str fmts)"

text \<open>
  The outer loop. \<open>date_candidate\<close> is \<open>match.group(1)\<close> of the search (group 1 spans the
  whole pattern, so it is set whenever the pattern matches). A pattern that does not
  match, or whose match parses under no format, is followed by the next pattern.
\<close>

definition date_candidate :: "re \<Rightarrow> string \<Rightarrow> string option" where
  "date_candidate pattern text_lower =
     (case re_search False pattern text_lower of None \<Rightarrow> None | Some m \<Rightarrow> group m 1)"

fun try_patterns :: "re list \<Rightarrow> string \<Rightarrow> datetime option" where
  "try_patterns [] text_lower = None"
| "try_patterns (pattern # ps) text_lower =
     (case date_candidate pattern text_lower of
        None \<Rightarrow> try_patterns ps text_lower
      | Some date_str \<Rightarrow>
          (case try_formats date_str date_formats of
             Some d \<Rightarrow> Some d
           | None \<Rightarrow> try_patterns ps text_lower))"

text \<open>\<open>_extract_date\<close>; the wall-clock time \<open>datetime.now()\<close> is the parameter \<open>now\<close>.\<close>

definition extract_date :: "datetime \<Rightarrow> string \<Rightarrow> datetime" where
  "extract_date now txt =
     (case try_patterns date_patterns (lower txt) of Some d \<Rightarrow> d | None \<Rightarrow> now)"

section \<open>The scan path's assembler: \<open>parse_receipt_text\<close>\<close>


definition receipt_lines :: "string \<Rightarrow> string list" where
  "receipt_lines txt = map strip (filter (\<lambda>line. strip line \<noteq> []) (split_nl txt))"


section \<open>The email path: \<open>EmailReceiptParser\<close>\<close>

definition email_store_patterns :: "(string \<times> re) list" where
  "email_store_patterns =
     [(''walmart'', Alt (Lit ''walmart'') (Lit ''wal-mart'')),
      (''amazon'', Lit ''amazon''),
      (''kroger'', Lit ''kroger''),
      (''target'', Lit ''target''),
      (''instacart'', Lit ''instacart''),
      (''whole foods'', seqs [Lit ''whole'', Star Space, Lit ''foods'']),
      (''trader joe'', seqs [Lit ''trader'', Star Space, Lit ''joe''])]"

text \<open>How an f-string renders a header that may be missing.\<close>

definition py_str :: "string option \<Rightarrow> string" where
  "py_str v = (case v of None \<Rightarrow> ''None'' | Some s \<Rightarrow> s)"

definition identify_store :: "string \<Rightarrow> string option \<Rightarrow> string option \<Rightarrow> string" where
  "identify_store body subject sender =
     first_store email_store_patterns
       (lower (py_str subject @ '' '' @ py_str sender @ '' '' @ body))"

definition email_skip_list :: "string list" where
  "email_skip_list =
     [''order summary'', ''subtotal'', ''total'', ''tax'', ''shipping'', ''delivery'',
      ''payment'', ''thank you'', ''questions'', ''customer service'', ''***'', ''---'',
      ''visit us'', ''follow us'']"

text \<open>
  The patterns of \<open>_extract_items_from_email\<close>: \<open>pattern1\<close> is
  \<^verbatim>\<open>(\d+)\s*x\s*(.+?)(?:@\s*[\$]?(\d+\.\d{2}))?\s*[\$]?\s*(\d+\.\d{2})\<close> (searched ignoring case) and
  \<open>pattern2\<close> is \<^verbatim>\<open>(.+?)[\s]{2,}[\$]?\s*(\d+\.\d{2})\s*$\<close>.
\<close>

definition pattern1 :: re where
  "pattern1 =
     seqs [Grp 1 (Plus Digit), Star Space, Lit ''x'', Star Space, Grp 2 (LazyPlus AnyChar),
           Opt (seqs [Lit ''@'', Star Space, Opt (Cls (OneOf ''$'')), Grp 3 number]),
           Star Space, Opt (Cls (OneOf ''$'')), Star Space, Grp 4 number]"

definition pattern2 :: re where
  "pattern2 =
     seqs [Grp 1 (LazyPlus AnyChar), Rep Space 2 None True, Opt (Cls (OneOf ''$'')),
           Star Space, Grp 2 number, Star Space, Eol]"

text \<open>
  The email path's \<open>_clean_item_name\<close>: \<^verbatim>\<open>\s+\<close> becomes one space, \<^verbatim>\<open>^\d+\s*\<close> and
  \<^verbatim>\<open>\s*(ea|each|lb|oz|kg|g)\s*$\<close> (ignoring case) are removed, the result is stripped and
  title-cased.
\<close>

definition email_clean_item_name :: "string \<Rightarrow> string" where
  "email_clean_item_name nm =
     (let n1 = re_sub False (Plus Space) '' '' nm;
          n2 = re_sub False (seqs [Bol, Plus Digit, Star Space]) [] n1;
          n3 = re_sub True
                 (seqs [Star Space,
                        Grp 1 (alts [Lit ''ea'', Lit ''each'', Lit ''lb'', Lit ''oz'',
                                     Lit ''kg'', Lit ''g'']),
                        Star Space, Eol]) [] n2;
          n4 = strip n3
      in title n4)"

text \<open>\<open>float(match1.group(3)) if match1.group(3) else 0\<close>\<close>

definition captured_unit :: "rmatch \<Rightarrow> py_error + rat" where
  "captured_unit m =
     (case group m 3 of None \<Rightarrow> Inr 0 | Some g3 \<Rightarrow> if g3 = [] then Inr 0 else py_float g3)"

text \<open>
  The body of the loop of \<open>_extract_items_from_email\<close> for one line of the body: an
  error, no item, or the item that is appended. A division by the float 0.0 raises
  \<open>ZeroDivisionError\<close>.
\<close>

definition email_line :: "string \<Rightarrow> py_error + item option" where
  "email_line raw_line =
     (let line = strip raw_line in
      if line = [] \<or> length line < 5 then Inr None
      else if skipped email_skip_list line then Inr None
      else case re_search True pattern1 line of
        Some match1 \<Rightarrow>
          (case float_group match1 1 of Inl e \<Rightarrow> Inl e | Inr qty \<Rightarrow>
           case group match1 2 of None \<Rightarrow> Inl AttributeError | Some g2 \<Rightarrow>
           case captured_unit match1 of Inl e \<Rightarrow> Inl e | Inr unit0 \<Rightarrow>
           case float_group match1 4 of Inl e \<Rightarrow> Inl e | Inr tot \<Rightarrow>
           case (if unit0 = 0
                 then (if qty = 0 then Inl ZeroDivisionError else Inr (tot / qty))
                 else Inr unit0) of Inl e \<Rightarrow> Inl e | Inr unit \<Rightarrow>
           Inr (Some \<lparr>name = email_clean_item_name (strip g2), quantity = qty,
                       unit_price = unit, total_price = tot\<rparr>))
      | None \<Rightarrow>
          (case re_search False pattern2 line of
             Some match2 \<Rightarrow>
               (case group match2 1 of None \<Rightarrow> Inl AttributeError | Some g1 \<Rightarrow>
                case float_group match2 2 of Inl e \<Rightarrow> Inl e | Inr price \<Rightarrow>
                if length (strip g1) > 2 \<and> price > 0 \<and> price < 500
                then Inr (Some \<lparr>name = email_clean_item_name (strip g1), quantity = 1,
                                 unit_price = price, total_price = price\<rparr>)
                else Inr None)
           | None \<Rightarrow> Inr None))"

fun email_items_loop :: "item list \<Rightarrow> string list \<Rightarrow> py_error + item list" where
  "email_items_loop items [] = Inr items"
| "email_items_loop items (line # lines) =
     (case email_line line of
        Inl e \<Rightarrow> Inl e
      | Inr None \<Rightarrow> email_items_loop items lines
      | Inr (Some it) \<Rightarrow> email_items_loop (items @ [it]) lines)"

definition extract_items_from_email :: "string \<Rightarrow> py_error + item list" where
  "extract_items_from_email body = email_items_loop [] (split_nl body)"

text \<open>
  The patterns of \<open>_extract_totals_from_email\<close>; each ends with
  \<^verbatim>\<open>[\s:]+[\$]?\s*(\d+\.\d{2})\<close>. The total patterns start with \<^verbatim>\<open>(?:order\s+)?total\<close>,
  \<^verbatim>\<open>amount\s+(?:due|charged)\<close> and \<^verbatim>\<open>grand\s+total\<close>, the tax patterns with
  \<^verbatim>\<open>(?:sales\s+)?tax\<close> and \<^verbatim>\<open>estimated\s+tax\<close>.
\<close>

definition amount_tail :: "re list" where
  "amount_tail = [Plus (Or Space (OneOf '':'')), Opt (Cls (OneOf ''$'')), Star Space, Grp 1 number]"

definition email_total_patterns :: "re list" where
  "email_total_patterns =
     [seqs ([Opt (seqs [Lit ''order'', Plus Space]), Lit ''total''] @ amount_tail),
      seqs ([Lit ''amount'', Plus Space, Alt (Lit ''due'') (Lit ''charged'')] @ amount_tail),
      seqs ([Lit ''grand'', Plus Space, Lit ''total''] @ amount_tail)]"

definition email_tax_patterns :: "re list" where
  "email_tax_patterns =
     [seqs ([Opt (seqs [Lit ''sales'', Plus Space]), Lit ''tax''] @ amount_tail),
      seqs ([Lit ''estimated'', Plus Space, Lit ''tax''] @ amount_tail)]"

text \<open>
  The loops of \<open>_extract_totals_from_email\<close>: the patterns are tried in the order of the
  list, and the first one that matches anywhere gives the amount (\<open>break\<close>).
\<close>

fun first_amount :: "re list \<Rightarrow> string \<Rightarrow> py_error + rat" where
  "first_amount [] body_lower = Inr 0"
| "first_amount (pattern # ps) body_lower =
     (case re_search False pattern body_lower of
        Some m \<Rightarrow> float_group m 1
      | None \<Rightarrow> first_amount ps body_lower)"

definition extract_totals_from_email :: "string \<Rightarrow> py_error + (rat \<times> rat)" where
  "extract_totals_from_email body =
     (case first_amount email_total_patterns (lower body) of Inl e \<Rightarrow> Inl e | Inr tot \<Rightarrow>
      case first_amount email_tax_patterns (lower body) of Inl e \<Rightarrow> Inl e | Inr tax \<Rightarrow>
      Inr (tot, tax))"

section \<open>Example inputs\<close>

text \<open>The three-line scan document of the end-to-end scenario.\<close>

definition scenario_text :: string where
  "scenario_text = ''BANANAS  1.99\<newline>MILK 2 @ 3.99  7.98\<newline>TOTAL  9.97''"

text \<open>A wall-clock time for the examples.\<close>

definition now0 :: datetime where
  "now0 = \<lparr>dt_year = 2026, dt_month = 11, dt_day = 3,
           dt_hour = 12, dt_minute = 30, dt_second = 0\<rparr>"

section \<open>Reference definitions for the claims\<close>

text \<open>
  The specification's wording of a keyword hit: the keyword stands in the name between
  two positions that are each the end of the name or next to a character that is not a
  word character.
\<close>

definition spec_whole_word :: "string \<Rightarrow> string \<Rightarrow> bool" where
  "spec_whole_word kw t =
     (\<exists>pre post. t = pre @ kw @ post \<and> (pre = [] \<or> \<not> is_word (last pre)) \<and>
                  (post = [] \<or> \<not> is_word (hd post)))"

text \<open>
  The specification's wording of the classifier: the first category other than \<open>Other\<close>,
  in the order of the table, one of whose keywords stands in the lower-cased name as a
  whole word or phrase; \<open>Other\<close> when there is none.
\<close>

definition spec_classify :: "string \<Rightarrow> string" where
  "spec_classify nm =
     (case find (\<lambda>(c, kws). \<exists>kw \<in> set kws. spec_whole_word kw (lower nm))
                (filter (\<lambda>(c, kws). c \<noteq> ''Other'') categories) of
        None \<Rightarrow> ''Other''
      | Some (c, kws) \<Rightarrow> c)"

text \<open>A keyword that starts and ends with a word character.\<close>

definition word_ended :: "string \<Rightarrow> bool" where
  "word_ended kw = (kw \<noteq> [] \<and> is_word (hd kw) \<and> is_word (last kw))"

text \<open>A pattern body whose words \<open>float\<close> reads as a number that is not negative.\<close>

definition amount_body :: "bool \<Rightarrow> re \<Rightarrow> bool" where
  "amount_body ic a = (\<forall>w \<in> lang ic a. \<exists>v. py_float w = Inr v \<and> 0 \<le> v)"

text \<open>
  The specification's wording of the store identifier: the title-cased name of the first
  entry of the table, in its order, whose pattern has a word that is a substring of the
  text; \<open>Unknown Store\<close> when there is none.
\<close>

definition spec_identify :: "(string \<times> re) list \<Rightarrow> string \<Rightarrow> string" where
  "spec_identify table t =
     (case find (\<lambda>(store, pattern). occurs_in False pattern t) table of
        None \<Rightarrow> ''Unknown Store''
      | Some (store, pattern) \<Rightarrow> title store)"





text \<open>
  The successful parses of a candidate string under the formats, and of the candidates
  of the patterns, each in the order of its list; the date extractor as the first of
  all successful parses, or the wall-clock time when there is none.
\<close>

definition format_parses :: "string \<Rightarrow> directive list list \<Rightarrow> datetime list" where
  "format_parses date_str fmts =
     concat (map (\<lambda>fmt. case strptime date_str fmt of Inl e \<Rightarrow> [] | Inr d \<Rightarrow> [d]) fmts)"

definition pattern_parses :: "re list \<Rightarrow> string \<Rightarrow> datetime list" where
  "pattern_parses ps t =
     concat (map (\<lambda>pattern. case date_candidate pattern t of
                     None \<Rightarrow> []
                   | Some date_str \<Rightarrow> format_parses date_str date_formats) ps)"

definition spec_extract_date :: "datetime \<Rightarrow> string \<Rightarrow> datetime" where
  "spec_extract_date now txt =
     (case pattern_parses date_patterns (lower txt) of [] \<Rightarrow> now | d # ds \<Rightarrow> d)"

text \<open>
  The first occurrence of a pattern in document order: the match at the least position
  of the text at which the pattern matches; \<open>spec_first_amount\<close> is the amount of that
  match, or 0.0 when the pattern matches nowhere. \<open>spec_list_amount\<close> takes the first
  pattern of a list that matches anywhere, and the amount of its first occurrence.
\<close>

definition matches_at :: "re \<Rightarrow> string \<Rightarrow> nat \<Rightarrow> bool" where
  "matches_at r t i = (i \<le> length t \<and> match_at False r (rev (take i t)) (drop i t) \<noteq> None)"

definition spec_first_amount :: "re \<Rightarrow> string \<Rightarrow> py_error + rat" where
  "spec_first_amount r t =
     (if \<exists>i. matches_at r t i
      then (case match_at False r (rev (take (LEAST i. matches_at r t i) t))
                              (drop (LEAST i. matches_at r t i) t) of
              None \<Rightarrow> Inr 0
            | Some m \<Rightarrow> float_group m 1)
      else Inr 0)"

definition spec_list_amount :: "re list \<Rightarrow> string \<Rightarrow> py_error + rat" where
  "spec_list_amount ps t =
     (case find (\<lambda>pattern. \<exists>i. matches_at pattern t i) ps of
        None \<Rightarrow> Inr 0
      | Some pattern \<Rightarrow> spec_first_amount pattern t)"

section \<open>Properties of the matcher\<close>

lemma rest_advance [simp]: "rest (advance n s) = drop n (rest s)"
  by (simp add: advance_def)

lemma bef_advance [simp]: "bef (advance n s) = rev (take n (rest s)) @ bef s"
  by (simp add: advance_def)

lemma caps_advance [simp]: "caps (advance n s) = caps s"
  by (simp add: advance_def)

lemma rest_set_group [simp]: "rest (set_group k s s') = rest s'"
  by (simp add: set_group_def)

lemma bef_set_group [simp]: "bef (set_group k s s') = bef s'"
  by (simp add: set_group_def)

lemma caps_set_group [simp]: "caps (set_group k s s') = (k, consumed s s') # caps s'"
  by (simp add: set_group_def)

lemma take_run_all: "i \<le> length (takeWhile P xs) \<Longrightarrow> list_all P (take i xs)"
  by (induction xs arbitrary: i) (auto simp: take_Cons split: nat.splits if_splits)

lemma run_covers: "list_all P w \<Longrightarrow> length w \<le> length (takeWhile P (w @ u))"
  by (induction w) auto

lemma ms_Rep_set:
  "set (ms ic (Rep k lo hi greedy) s) =
     {advance i s | i. lo \<le> i \<and> i \<le> length (takeWhile (cls_ok ic k) (rest s)) \<and>
                       (case hi of None \<Rightarrow> True | Some h \<Rightarrow> i \<le> h)}"
  by (auto simp: Let_def split: option.splits)

lemma ms_sound:
  "s' \<in> set (ms ic r s) \<Longrightarrow> \<exists>w \<in> lang ic r. rest s = w @ rest s' \<and> bef s' = rev w @ bef s"
proof (induction r arbitrary: s s')
  case (Lit l)
  then show ?case
    by (auto split: if_splits intro!: exI[of _ "take (length l) (rest s)"])
next
  case (Cls k)
  show ?case
  proof (cases "rest s")
    case Nil
    with Cls show ?thesis by simp
  next
    case (Cons c cs)
    with Cls show ?thesis by (auto split: if_splits)
  qed
next
  case (Rep k lo hi greedy)
  from Rep obtain i where i: "s' = advance i s" "lo \<le> i"
    "i \<le> length (takeWhile (cls_ok ic k) (rest s))"
    "case hi of None \<Rightarrow> True | Some h \<Rightarrow> i \<le> h"
    unfolding ms_Rep_set by blast
  have all: "list_all (cls_ok ic k) (take i (rest s))"
    using i(3) by (rule take_run_all)
  have len: "i \<le> length (rest s)"
    using i(3) length_takeWhile_le[of "cls_ok ic k" "rest s"] by simp
  show ?case
    using i(1,2,4) all len
    by (intro bexI[of _ "take i (rest s)"]) (auto simp: min_absorb2 split: option.splits)
next
  case (Seq a b)
  from Seq.prems obtain s1 where s1: "s1 \<in> set (ms ic a s)" "s' \<in> set (ms ic b s1)" by auto
  from Seq.IH(1)[OF s1(1)] obtain u where
    u: "u \<in> lang ic a" "rest s = u @ rest s1" "bef s1 = rev u @ bef s" by blast
  from Seq.IH(2)[OF s1(2)] obtain v where
    v: "v \<in> lang ic b" "rest s1 = v @ rest s'" "bef s' = rev v @ bef s1" by blast
  show ?case using u v by (intro bexI[of _ "u @ v"]) auto
next
  case (Alt a b)
  then show ?case by fastforce
next
  case (Opt a)
  then show ?case by fastforce
next
  case (Grp k a)
  then show ?case by fastforce
qed (auto split: if_splits)

lemma consumed_eq: "rest s = w @ rest s' \<Longrightarrow> consumed s s' = w"
  by (simp add: consumed_def)

lemma ms_caps:
  "s' \<in> set (ms ic r s) \<Longrightarrow> (k, w) \<in> set (caps s') \<Longrightarrow>
   (k, w) \<in> set (caps s) \<or> (\<exists>a. (k, a) \<in> set (grps r) \<and> w \<in> lang ic a)"
proof (induction r arbitrary: s s')
  case (Rep c lo hi greedy)
  then show ?case by (auto simp: Let_def split: if_splits)
next
  case (Seq a b)
  from Seq.prems obtain s1 where s1: "s1 \<in> set (ms ic a s)" "s' \<in> set (ms ic b s1)" by auto
  from Seq.IH(2)[OF s1(2) Seq.prems(2)] Seq.IH(1)[OF s1(1)] show ?case by auto
next
  case (Grp j a)
  from Grp.prems obtain s0 where s0: "s0 \<in> set (ms ic a s)" "s' = set_group j s s0" by auto
  from ms_sound[OF s0(1)] obtain u where u: "u \<in> lang ic a" "rest s = u @ rest s0" by blast
  show ?case
  proof (cases "(k, w) \<in> set (caps s0)")
    case True
    with Grp.IH[OF s0(1)] show ?thesis by auto
  next
    case False
    with Grp.prems(2) s0(2) have "k = j" "w = consumed s s0" by auto
    with u consumed_eq[OF u(2)] show ?thesis by auto
  qed
next
  case (Alt a b)
  from Alt.prems(1) consider "s' \<in> set (ms ic a s)" | "s' \<in> set (ms ic b s)" by auto
  then show ?case
  proof cases
    case 1
    from Alt.IH(1)[OF 1 Alt.prems(2)] show ?thesis by auto
  next
    case 2
    from Alt.IH(2)[OF 2 Alt.prems(2)] show ?thesis by auto
  qed
next
  case (Opt a)
  from Opt.prems(1) consider "s' \<in> set (ms ic a s)" | "s' = s" by auto
  then show ?case
  proof cases
    case 1
    from Opt.IH[OF 1 Opt.prems(2)] show ?thesis by auto
  next
    case 2
    with Opt.prems(2) show ?thesis by simp
  qed
qed (auto split: if_splits list.splits)

lemma ms_caps_mono: "s' \<in> set (ms ic r s) \<Longrightarrow> set (caps s) \<subseteq> set (caps s')"
proof (induction r arbitrary: s s')
  case (Rep c lo hi greedy)
  then show ?case by (auto simp: Let_def split: if_splits)
next
  case (Seq a b)
  from Seq.prems obtain s1 where s1: "s1 \<in> set (ms ic a s)" "s' \<in> set (ms ic b s1)" by auto
  from Seq.IH(1)[OF s1(1)] Seq.IH(2)[OF s1(2)] show ?case by blast
next
  case (Grp j a)
  then show ?case by fastforce
next
  case (Alt a b)
  then show ?case by fastforce
next
  case (Opt a)
  then show ?case by fastforce
qed (auto split: if_splits list.splits)

lemma ms_sets:
  "sets_grp k r \<Longrightarrow> s' \<in> set (ms ic r s) \<Longrightarrow> k \<in> fst ` set (caps s')"
proof (induction r arbitrary: s s')
  case (Seq a b)
  from Seq.prems obtain s1 where s1: "s1 \<in> set (ms ic a s)" "s' \<in> set (ms ic b s1)" by auto
  show ?case
  proof (cases "sets_grp k a")
    case True
    from Seq.IH(1)[OF True s1(1)] ms_caps_mono[OF s1(2)] show ?thesis by auto
  next
    case False
    with Seq.prems(1) have "sets_grp k b" by simp
    from Seq.IH(2)[OF this s1(2)] show ?thesis .
  qed
next
  case (Grp j a)
  from Grp.prems(2) obtain s0 where s0: "s0 \<in> set (ms ic a s)" "s' = set_group j s s0" by auto
  show ?case
  proof (cases "j = k")
    case True
    with s0(2) show ?thesis by simp
  next
    case False
    with Grp.prems(1) have "sets_grp k a" by simp
    from Grp.IH[OF this s0(1)] s0(2) show ?thesis by auto
  qed
qed auto

lemma match_at_None: "match_at ic r b w = None \<longleftrightarrow> ms ic r \<lparr>bef = b, rest = w, caps = []\<rparr> = []"
  by (simp add: match_at_def split: list.splits)

text \<open>A match lies inside the text, so the bound in \<open>sub_from\<close> is always met.\<close>

lemma match_at_span:
  assumes "match_at ic r b w = Some m"
  shows "m_start m = length b \<and> length b \<le> m_end m \<and> m_end m \<le> length b + length w"
proof (cases "ms ic r \<lparr>bef = b, rest = w, caps = []\<rparr>")
  case Nil
  with assms show ?thesis by (simp add: match_at_def)
next
  case (Cons s' ss)
  with assms have m: "m_start m = length b" "m_end m = length (bef s')"
    by (auto simp: match_at_def)
  from Cons have "s' \<in> set (ms ic r \<lparr>bef = b, rest = w, caps = []\<rparr>)" by simp
  from ms_sound[OF this] obtain u where u: "w = u @ rest s'" "bef s' = rev u @ b" by auto
  from u(2) have "length (bef s') = length u + length b" by simp
  moreover from u(1) have "length u \<le> length w" by (metis length_append le_add1)
  ultimately show ?thesis using m by simp
qed

lemma all_le_Suc_shift: "(\<forall>i \<le> Suc n. P i) \<longleftrightarrow> P 0 \<and> (\<forall>j \<le> n. P (Suc j))"
  by (metis Suc_le_mono le0 not0_implies_Suc)

lemma search_from_None_iff:
  "search_from ic r b w = None \<longleftrightarrow>
     (\<forall>i \<le> length w. match_at ic r (rev (take i w) @ b) (drop i w) = None)"
proof (induction w arbitrary: b)
  case Nil
  show ?case by simp
next
  case (Cons c cs)
  show ?case
    by (simp add: Cons.IH all_le_Suc_shift split: option.splits)
qed

lemma search_from_Some:
  "search_from ic r b w = Some m \<Longrightarrow>
     \<exists>i \<le> length w. match_at ic r (rev (take i w) @ b) (drop i w) = Some m \<and>
        (\<forall>j < i. match_at ic r (rev (take j w) @ b) (drop j w) = None)"
proof (induction w arbitrary: b)
  case Nil
  then show ?case by simp
next
  case (Cons c cs)
  show ?case
  proof (cases "match_at ic r b (c # cs)")
    case (Some m')
    with Cons.prems have "m' = m" by simp
    with Some show ?thesis by (intro exI[of _ 0]) simp
  next
    case None
    with Cons.prems have "search_from ic r (c # b) cs = Some m" by simp
    from Cons.IH[OF this] obtain i where i: "i \<le> length cs"
      "match_at ic r (rev (take i cs) @ c # b) (drop i cs) = Some m"
      "\<forall>j < i. match_at ic r (rev (take j cs) @ c # b) (drop j cs) = None" by blast
    have "\<forall>j < Suc i. match_at ic r (rev (take j (c # cs)) @ b) (drop j (c # cs)) = None"
    proof (intro allI impI)
      fix j assume "j < Suc i"
      then show "match_at ic r (rev (take j (c # cs)) @ b) (drop j (c # cs)) = None"
        using None i(3) by (cases j) auto
    qed
    with i(1,2) show ?thesis by (intro exI[of _ "Suc i"]) simp
  qed
qed

lemma ms_complete:
  "anchor_free r \<Longrightarrow> w \<in> lang ic r \<Longrightarrow> rest s = w @ u \<Longrightarrow> \<exists>s' \<in> set (ms ic r s). rest s' = u"
proof (induction r arbitrary: s w u)
  case (Lit l)
  then show ?case by auto
next
  case (Cls k)
  then show ?case by auto
next
  case (Rep k lo hi greedy)
  from Rep.prems have w: "list_all (cls_ok ic k) w" "lo \<le> length w"
    "case hi of None \<Rightarrow> True | Some h \<Rightarrow> length w \<le> h" by auto
  have "length w \<le> length (takeWhile (cls_ok ic k) (rest s))"
    using run_covers[OF w(1)] Rep.prems(3) by simp
  with w(2,3) have "advance (length w) s \<in> set (ms ic (Rep k lo hi greedy) s)"
    unfolding ms_Rep_set by blast
  moreover have "rest (advance (length w) s) = u" using Rep.prems(3) by simp
  ultimately show ?case by blast
next
  case (Seq a b)
  from Seq.prems obtain x y where xy: "w = x @ y" "x \<in> lang ic a" "y \<in> lang ic b" by auto
  from Seq.prems(1) have af: "anchor_free a" "anchor_free b" by auto
  from Seq.prems(3) xy(1) have "rest s = x @ (y @ u)" by simp
  from Seq.IH(1)[OF af(1) xy(2) this] obtain s1 where
    s1: "s1 \<in> set (ms ic a s)" "rest s1 = y @ u" by blast
  from Seq.IH(2)[OF af(2) xy(3) s1(2)] obtain s' where
    "s' \<in> set (ms ic b s1)" "rest s' = u" by blast
  with s1(1) show ?case by auto
next
  case (Alt a b)
  then show ?case by fastforce
next
  case (Opt a)
  then show ?case by fastforce
next
  case (Grp k a)
  then show ?case by fastforce
qed auto

lemma re_search_occurs:
  assumes "anchor_free r"
  shows "(re_search ic r t \<noteq> None) = occurs_in ic r t"
proof
  assume "re_search ic r t \<noteq> None"
  then obtain i where i: "i \<le> length t"
    "ms ic r \<lparr>bef = rev (take i t), rest = drop i t, caps = []\<rparr> \<noteq> []"
    by (auto simp: re_search_def search_from_None_iff match_at_None)
  then obtain s' where "s' \<in> set (ms ic r \<lparr>bef = rev (take i t), rest = drop i t, caps = []\<rparr>)"
    by (meson last_in_set)
  from ms_sound[OF this] obtain w where w: "w \<in> lang ic r" "drop i t = w @ rest s'" by auto
  have "t = take i t @ w @ rest s'" using w(2) by (metis append_take_drop_id)
  with w(1) show "occurs_in ic r t" unfolding occurs_in_def by blast
next
  assume "occurs_in ic r t"
  then obtain pre w post where t: "t = pre @ w @ post" "w \<in> lang ic r"
    unfolding occurs_in_def by blast
  let ?s = "\<lparr>bef = rev (take (length pre) t), rest = drop (length pre) t, caps = []\<rparr>"
  have "rest ?s = w @ post" using t(1) by simp
  from ms_complete[OF assms t(2) this] have "ms ic r ?s \<noteq> []" by auto
  moreover have "length pre \<le> length t" using t(1) by simp
  ultimately show "re_search ic r t \<noteq> None"
    by (auto simp: re_search_def search_from_None_iff match_at_None)
qed

section \<open>Properties of the classifier\<close>

lemma at_boundary_iff:
  "at_boundary s = ((bef s \<noteq> [] \<and> is_word (hd (bef s))) \<noteq> (rest s \<noteq> [] \<and> is_word (hd (rest s))))"
  by (simp add: at_boundary_def split: list.splits)

lemma ms_keyword:
  "ms False (Seq WordB (Seq (Lit kw) WordB)) s \<noteq> [] \<longleftrightarrow>
     at_boundary s \<and> length kw \<le> length (rest s) \<and> take (length kw) (rest s) = kw \<and>
     at_boundary (advance (length kw) s)"
  by (auto simp: lit_ok_def)

lemma keyword_hit_iff:
  assumes "word_ended kw"
  shows "keyword_hit t kw = spec_whole_word kw t"
proof
  assume "keyword_hit t kw"
  then obtain i where i: "i \<le> length t"
    "ms False (Seq WordB (Seq (Lit kw) WordB)) \<lparr>bef = rev (take i t), rest = drop i t, caps = []\<rparr> \<noteq> []"
    by (auto simp: keyword_hit_def re_search_def search_from_None_iff match_at_None)
  let ?s = "\<lparr>bef = rev (take i t), rest = drop i t, caps = []\<rparr>"
  from i(2) have b1: "at_boundary ?s" and len: "length kw \<le> length (drop i t)"
    and tk: "take (length kw) (drop i t) = kw" and b2: "at_boundary (advance (length kw) ?s)"
    unfolding ms_keyword by simp_all
  define pre where "pre = take i t"
  define post where "post = drop (length kw) (drop i t)"
  have dr: "drop i t = kw @ post" unfolding post_def using tk by (metis append_take_drop_id)
  have t: "t = pre @ kw @ post" unfolding pre_def using dr by (metis append_take_drop_id)
  from assms have kw: "kw \<noteq> []" "is_word (hd kw)" "is_word (last kw)" by (auto simp: word_ended_def)
  from b1 kw dr have "pre = [] \<or> \<not> is_word (last pre)"
    by (auto simp: at_boundary_iff pre_def hd_rev)
  moreover from b2 kw dr have "post = [] \<or> \<not> is_word (hd post)"
    by (auto simp: at_boundary_iff hd_rev hd_append)
  ultimately show "spec_whole_word kw t" unfolding spec_whole_word_def using t by blast
next
  assume "spec_whole_word kw t"
  then obtain pre post where t: "t = pre @ kw @ post" "pre = [] \<or> \<not> is_word (last pre)"
    "post = [] \<or> \<not> is_word (hd post)" unfolding spec_whole_word_def by blast
  from assms have kw: "kw \<noteq> []" "is_word (hd kw)" "is_word (last kw)" by (auto simp: word_ended_def)
  let ?s = "\<lparr>bef = rev (take (length pre) t), rest = drop (length pre) t, caps = []\<rparr>"
  have "ms False (Seq WordB (Seq (Lit kw) WordB)) ?s \<noteq> []"
    unfolding ms_keyword using t kw by (auto simp: at_boundary_iff hd_rev hd_append)
  moreover have "length pre \<le> length t" using t(1) by simp
  ultimately show "keyword_hit t kw"
    by (auto simp: keyword_hit_def re_search_def search_from_None_iff match_at_None)
qed

lemma any_keyword_iff: "any_keyword x kws = (\<exists>kw \<in> set kws. keyword_hit x kw)"
  by (induction kws) auto

lemma first_category_find:
  "\<forall>(c, kws) \<in> set cs. \<forall>kw \<in> set kws. word_ended kw \<Longrightarrow>
   first_category x cs =
     (case find (\<lambda>(c, kws). \<exists>kw \<in> set kws. spec_whole_word kw x)
                (filter (\<lambda>(c, kws). c \<noteq> ''Other'') cs) of
        None \<Rightarrow> ''Other''
      | Some (c, kws) \<Rightarrow> c)"
proof (induction cs)
  case Nil
  show ?case by simp
next
  case (Cons ck cs)
  obtain c kws where ck: "ck = (c, kws)" by (cases ck)
  from Cons.prems ck have wk: "\<forall>kw \<in> set kws. word_ended kw" by auto
  have hit: "any_keyword x kws = (\<exists>kw \<in> set kws. spec_whole_word kw x)"
    unfolding any_keyword_iff using wk keyword_hit_iff by blast
  from Cons.prems have "\<forall>(c, kws) \<in> set cs. \<forall>kw \<in> set kws. word_ended kw" by simp
  from Cons.IH[OF this] show ?case unfolding ck by (simp add: hit)
qed

lemma categories_word_ended: "\<forall>(c, kws) \<in> set categories. \<forall>kw \<in> set kws. word_ended kw"
proof -
  have "list_all (\<lambda>(c, kws). list_all word_ended kws) categories" by code_simp
  then show ?thesis by (auto simp: list_all_iff)
qed

lemma first_category_empty: "first_category [] categories = ''Other''"
  by code_simp

lemma categorize_spec: "categorize_item nm = spec_classify nm"
proof (cases "nm = []")
  case True
  then show ?thesis
    using first_category_find[OF categories_word_ended, of "[]"] first_category_empty
    by (simp add: categorize_item_def spec_classify_def lower_def)
next
  case False
  then show ?thesis
    using first_category_find[OF categories_word_ended, of "lower nm"]
    by (simp add: categorize_item_def spec_classify_def)
qed

lemma ice_cream:
  assumes "spec_whole_word ''ice cream'' (lower nm)"
    and "\<forall>kw \<in> set (concat (map snd (take 2 categories))). \<not> spec_whole_word kw (lower nm)"
  shows "categorize_item nm = ''Dairy & Eggs''"
proof -
  have "spec_classify nm = ''Dairy & Eggs''"
    using assms unfolding spec_classify_def categories_def by simp
  then show ?thesis by (simp add: categorize_spec)
qed

section \<open>Amounts\<close>

lemma lower_char_cases: "lower_char c = c \<or> (is_upper c \<and> is_lower (lower_char c))"
  by (simp add: lower_char_def is_upper_def is_lower_def)

lemma upper_char_cases: "upper_char c = c \<or> (is_lower c \<and> is_upper (upper_char c))"
  by (simp add: upper_char_def is_upper_def is_lower_def)

lemma letter_not_digit: "is_lower c \<or> is_upper c \<Longrightarrow> \<not> is_digit c"
  by (auto simp: is_lower_def is_upper_def is_digit_def)

lemma letter_not_space: "is_lower c \<or> is_upper c \<Longrightarrow> \<not> is_space c"
  by (auto simp: is_lower_def is_upper_def is_space_def)

lemma digit_not_space: "is_digit c \<Longrightarrow> \<not> is_space c"
  by (auto simp: is_digit_def is_space_def)

lemma is_digit_lower_char [simp]: "is_digit (lower_char c) = is_digit c"
  using lower_char_cases[of c] letter_not_digit by metis

lemma is_digit_upper_char [simp]: "is_digit (upper_char c) = is_digit c"
  using upper_char_cases[of c] letter_not_digit by metis

lemma cls_ok_Digit [simp]: "cls_ok ic Digit = is_digit"
  by (rule ext) (auto simp: cls_ok_def)

lemma lower_char_dot: "lower_char c = CHR ''.'' \<Longrightarrow> c = CHR ''.''"
  using lower_char_cases[of c] by (auto simp: is_lower_def)

lemma lit_ok_dot: "length w = 1 \<Longrightarrow> lit_ok ic ''.'' w \<Longrightarrow> w = ''.''"
  by (cases w) (auto simp: lit_ok_def lower_char_def dest: lower_char_dot split: if_splits)

text \<open>The words of the amount pattern \<open>\d+\.\d{2}\<close> and of \<open>\d+\<close>.\<close>

lemma lang_number:
  "w \<in> lang ic number \<Longrightarrow>
     \<exists>ds fs. w = ds @ ''.'' @ fs \<and> ds \<noteq> [] \<and> list_all is_digit ds \<and> list_all is_digit fs"
proof -
  assume "w \<in> lang ic number"
  then obtain ds d fs where w: "w = ds @ d @ fs" "list_all is_digit ds" "1 \<le> length ds"
    "length d = 1" "lit_ok ic ''.'' d" "list_all is_digit fs"
    by (auto simp: number_def)
  from lit_ok_dot[OF w(4,5)] w show ?thesis by (intro exI[of _ ds] exI[of _ fs]) auto
qed

lemma lang_digits:
  "w \<in> lang ic (Plus Digit) \<Longrightarrow> w \<noteq> [] \<and> list_all is_digit w"
  by auto

lemma strip_id: "s \<noteq> [] \<Longrightarrow> \<not> is_space (hd s) \<Longrightarrow> \<not> is_space (last s) \<Longrightarrow> strip s = s"
proof -
  assume s: "s \<noteq> []" "\<not> is_space (hd s)" "\<not> is_space (last s)"
  then have "dropWhile is_space s = s" by (cases s) auto
  moreover have "dropWhile is_space (rev s) = rev s"
    using s by (cases "rev s") (auto simp: last_rev[symmetric] simp del: last_rev)
  ultimately show ?thesis by (simp add: strip_def)
qed

lemma takeWhile_digits_dot:
  "list_all is_digit ds \<Longrightarrow> takeWhile is_digit (ds @ CHR ''.'' # fs) = ds"
  by (induction ds) (auto simp: is_digit_def)

lemma dropWhile_digits_dot:
  "list_all is_digit ds \<Longrightarrow> dropWhile is_digit (ds @ CHR ''.'' # fs) = CHR ''.'' # fs"
  by (induction ds) (auto simp: is_digit_def)

lemma takeWhile_all: "list_all P xs \<Longrightarrow> takeWhile P xs = xs"
  by (induction xs) auto

lemma dropWhile_all: "list_all P xs \<Longrightarrow> dropWhile P xs = []"
  by (induction xs) auto

lemma unsigned_float_amount:
  "ds \<noteq> [] \<Longrightarrow> list_all is_digit ds \<Longrightarrow> list_all is_digit fs \<Longrightarrow>
   unsigned_float (ds @ ''.'' @ fs) =
     Inr (of_nat (digits_val ds) + of_nat (digits_val fs) / 10 ^ length fs)"
  by (simp add: unsigned_float_def takeWhile_digits_dot dropWhile_digits_dot)

lemma unsigned_float_digits:
  "ds \<noteq> [] \<Longrightarrow> list_all is_digit ds \<Longrightarrow> unsigned_float ds = Inr (of_nat (digits_val ds))"
  by (simp add: unsigned_float_def takeWhile_all dropWhile_all)

lemma py_float_unsigned:
  assumes "w \<noteq> []" "is_digit (hd w)" "\<not> is_space (last w)"
  shows "py_float w = unsigned_float w"
proof -
  have "strip w = w" using assms digit_not_space by (intro strip_id) auto
  moreover obtain c u where cu: "w = c # u" using assms(1) by (cases w) auto
  moreover have "c \<noteq> CHR ''-''" "c \<noteq> CHR ''+''" using assms(2) cu by (auto simp: is_digit_def)
  ultimately show ?thesis by (simp add: py_float_def)
qed

lemma py_float_amount:
  assumes "ds \<noteq> []" "list_all is_digit ds" "list_all is_digit fs"
  shows "py_float (ds @ ''.'' @ fs) =
     Inr (of_nat (digits_val ds) + of_nat (digits_val fs) / 10 ^ length fs)"
proof -
  have "is_digit (hd (ds @ ''.'' @ fs))" using assms(1,2) by (cases ds) auto
  moreover have "\<not> is_space (last (ds @ ''.'' @ fs))"
    using assms(3) digit_not_space
    by (cases "fs = []") (auto simp: is_space_def list_all_iff)
  ultimately have "py_float (ds @ ''.'' @ fs) = unsigned_float (ds @ ''.'' @ fs)"
    by (intro py_float_unsigned) auto
  then show ?thesis using unsigned_float_amount[OF assms] by simp
qed

lemma py_float_digits:
  assumes "ds \<noteq> []" "list_all is_digit ds"
  shows "py_float ds = Inr (of_nat (digits_val ds))"
proof -
  have "is_digit (hd ds)" using assms by (cases ds) auto
  moreover have "\<not> is_space (last ds)" using assms digit_not_space by (auto simp: list_all_iff)
  ultimately have "py_float ds = unsigned_float ds" using assms(1) by (intro py_float_unsigned)
  then show ?thesis using unsigned_float_digits[OF assms] by simp
qed

lemma amount_body_number: "amount_body ic number"
  unfolding amount_body_def
proof
  fix w assume "w \<in> lang ic number"
  from lang_number[OF this] obtain ds fs where
    w: "w = ds @ ''.'' @ fs" "ds \<noteq> []" "list_all is_digit ds" "list_all is_digit fs" by blast
  show "\<exists>v. py_float w = Inr v \<and> 0 \<le> v"
    unfolding w(1) py_float_amount[OF w(2,3,4)] by simp
qed

lemma amount_body_digits: "amount_body ic (Plus Digit)"
  unfolding amount_body_def
proof
  fix w assume "w \<in> lang ic (Plus Digit)"
  from lang_digits[OF this] have w: "w \<noteq> []" "list_all is_digit w" by auto
  show "\<exists>v. py_float w = Inr v \<and> 0 \<le> v"
    unfolding py_float_digits[OF w] by simp
qed

text \<open>The groups of a match found by \<open>re.search\<close>.\<close>

lemma match_at_groups:
  assumes "match_at ic r b w = Some m"
  shows "\<exists>s'. s' \<in> set (ms ic r \<lparr>bef = b, rest = w, caps = []\<rparr>) \<and> m_groups m = caps s'"
  using assms by (auto simp: match_at_def split: list.splits)

lemma re_search_groups:
  assumes "re_search ic r t = Some m"
  shows "\<exists>b w s'. s' \<in> set (ms ic r \<lparr>bef = b, rest = w, caps = []\<rparr>) \<and> m_groups m = caps s'"
proof -
  from assms search_from_Some[of ic r "[]" t m] obtain i where
    "match_at ic r (rev (take i t) @ []) (drop i t) = Some m"
    unfolding re_search_def by blast
  from match_at_groups[OF this] show ?thesis by blast
qed

lemma re_search_group_lang:
  assumes "re_search ic r t = Some m" "group m k = Some w"
  shows "\<exists>a. (k, a) \<in> set (grps r) \<and> w \<in> lang ic a"
proof -
  from re_search_groups[OF assms(1)] obtain b u s' where
    s': "s' \<in> set (ms ic r \<lparr>bef = b, rest = u, caps = []\<rparr>)" "m_groups m = caps s'" by blast
  from assms(2) s'(2) have "(k, w) \<in> set (caps s')"
    by (auto simp: group_def dest: map_of_SomeD)
  from ms_caps[OF s'(1) this] show ?thesis by simp
qed

lemma re_search_group_set:
  assumes "re_search ic r t = Some m" "sets_grp k r"
  shows "\<exists>w. group m k = Some w"
proof -
  from re_search_groups[OF assms(1)] obtain b u s' where
    s': "s' \<in> set (ms ic r \<lparr>bef = b, rest = u, caps = []\<rparr>)" "m_groups m = caps s'" by blast
  from ms_sets[OF assms(2) s'(1)] s'(2) show ?thesis
    by (simp add: group_def) (metis domIff dom_map_of_conv_image_fst not_Some_eq)
qed

lemma float_group_amount:
  assumes "re_search ic r t = Some m" "sets_grp k r"
    and "\<forall>a. (k, a) \<in> set (grps r) \<longrightarrow> amount_body ic a"
  shows "\<exists>v. float_group m k = Inr v \<and> 0 \<le> v"
proof -
  from re_search_group_set[OF assms(1,2)] obtain w where w: "group m k = Some w" by blast
  from re_search_group_lang[OF assms(1) w] assms(3) obtain a where
    "amount_body ic a" "w \<in> lang ic a" by blast
  then show ?thesis using w by (auto simp: float_group_def amount_body_def)
qed

section \<open>Properties of the line-item extractors\<close>

lemma grps_number [simp]: "grps number = []"
  by (simp add: number_def)

lemma sets_grp_number [simp]: "sets_grp k number = False"
  by (simp add: number_def)

lemma amount_body_digits_Suc: "amount_body ic (Rep Digit (Suc 0) None True)"
  using amount_body_digits[of ic] by simp

lemma grps_quantity_pattern: "grps quantity_pattern = [(1, Plus Digit), (2, number)]"
  by (simp add: quantity_pattern_def)

lemma grps_price_pattern: "grps price_pattern = [(1, number)]"
  by (simp add: price_pattern_def)


lemma grps_pattern2: "grps pattern2 = [(1, LazyPlus AnyChar), (2, number)]"
  by (simp add: pattern2_def)

lemma quantity_float:
  assumes "re_search False quantity_pattern line = Some m"
  shows "\<exists>q u. float_group m 1 = Inr q \<and> 0 \<le> q \<and> float_group m 2 = Inr u \<and> 0 \<le> u"
proof -
  have "\<exists>v. float_group m 1 = Inr v \<and> 0 \<le> v"
    by (rule float_group_amount[OF assms])
       (auto simp: quantity_pattern_def grps_quantity_pattern[unfolded quantity_pattern_def]
                   amount_body_digits_Suc amount_body_number)
  moreover have "\<exists>v. float_group m 2 = Inr v \<and> 0 \<le> v"
    by (rule float_group_amount[OF assms])
       (auto simp: quantity_pattern_def amount_body_digits_Suc amount_body_number)
  ultimately show ?thesis by blast
qed

lemma price_float:
  assumes "re_search False price_pattern line = Some m"
  shows "\<exists>p. float_group m 1 = Inr p \<and> 0 \<le> p"
  by (rule float_group_amount[OF assms]) (auto simp: price_pattern_def amount_body_number)

lemma scan_line_returns: "\<exists>r. scan_line line = Inr r"
proof (cases "re_search False quantity_pattern line")
  case None
  show ?thesis
  proof (cases "re_search False price_pattern line")
    case None
    with \<open>re_search False quantity_pattern line = None\<close> show ?thesis
      by (simp add: scan_line_def)
  next
    case (Some m)
    from price_float[OF Some] obtain p where "float_group m 1 = Inr p" by blast
    with Some \<open>re_search False quantity_pattern line = None\<close> show ?thesis
      by (simp add: scan_line_def Let_def)
  qed
next
  case (Some m)
  from quantity_float[OF Some] obtain q u where "float_group m 1 = Inr q" "float_group m 2 = Inr u"
    by blast
  with Some show ?thesis by (simp add: scan_line_def Let_def)
qed



lemma extract_items_loop_returns: "\<exists>its. extract_items_loop acc lines = Inr its"
proof (induction lines arbitrary: acc)
  case Nil
  show ?case by simp
next
  case (Cons l ls)
  from scan_line_returns[of l] obtain r where r: "scan_line l = Inr r" by blast
  show ?case using r Cons.IH by (cases r) auto
qed





section \<open>Properties of the store identifier and of noise\<close>

lemma first_store_spec:
  "\<forall>(store, pattern) \<in> set table. anchor_free pattern \<Longrightarrow>
   first_store table t = spec_identify table t"
proof (induction table)
  case Nil
  show ?case by (simp add: spec_identify_def)
next
  case (Cons sp table)
  obtain store pattern where sp: "sp = (store, pattern)" by (cases sp)
  from Cons.prems sp have af: "anchor_free pattern" by simp
  from Cons.prems have "\<forall>(store, pattern) \<in> set table. anchor_free pattern" by simp
  from Cons.IH[OF this] have ih: "first_store table t = spec_identify table t" .
  have eq: "(re_search False pattern t \<noteq> None) = occurs_in False pattern t"
    by (rule re_search_occurs[OF af])
  show ?case
  proof (cases "occurs_in False pattern t")
    case True
    with eq have "re_search False pattern t \<noteq> None" by simp
    with True show ?thesis unfolding sp by (simp add: spec_identify_def)
  next
    case False
    with eq have "re_search False pattern t = None" by simp
    with False ih show ?thesis unfolding sp by (simp add: spec_identify_def)
  qed
qed

lemma scan_store_patterns_anchor_free:
  "\<forall>(store, pattern) \<in> set scan_store_patterns. anchor_free pattern"
  by (simp add: scan_store_patterns_def)

lemma email_store_patterns_anchor_free:
  "\<forall>(store, pattern) \<in> set email_store_patterns. anchor_free pattern"
  by (simp add: email_store_patterns_def)

lemma lower_append: "lower (a @ b) = lower a @ lower b"
  by (simp add: lower_def)

lemma walmart_occurs:
  "occurs_in False (Alt (Lit ''walmart'') (Lit ''wal-mart''))
     (pre @ lower ''WALMART SUPERCENTER #123'' @ post)"
proof -
  have "lower ''WALMART SUPERCENTER #123'' = ''walmart'' @ '' supercenter #123''" by code_simp
  then have "pre @ lower ''WALMART SUPERCENTER #123'' @ post =
               pre @ ''walmart'' @ ('' supercenter #123'' @ post)" by simp
  moreover have "''walmart'' \<in> lang False (Alt (Lit ''walmart'') (Lit ''wal-mart''))"
    by (simp add: lit_ok_def)
  ultimately show ?thesis unfolding occurs_in_def by blast
qed

lemma title_walmart: "title ''walmart'' = ''Walmart''"
  by code_simp




section \<open>Properties of the date extractor\<close>

lemma format_parses_Nil: "format_parses s [] = []"
  by (simp add: format_parses_def)

lemma format_parses_Cons:
  "format_parses s (f # fs) =
     (case strptime s f of Inl e \<Rightarrow> format_parses s fs | Inr d \<Rightarrow> d # format_parses s fs)"
  by (simp add: format_parses_def split: sum.splits)

lemma pattern_parses_Nil: "pattern_parses [] t = []"
  by (simp add: pattern_parses_def)

lemma pattern_parses_Cons:
  "pattern_parses (p # ps) t =
     (case date_candidate p t of
        None \<Rightarrow> pattern_parses ps t
      | Some s \<Rightarrow> format_parses s date_formats @ pattern_parses ps t)"
  by (simp add: pattern_parses_def split: option.splits)

lemma try_formats_spec:
  "try_formats s fs = (case format_parses s fs of [] \<Rightarrow> None | d # ds \<Rightarrow> Some d)"
proof (induction fs)
  case Nil
  show ?case by (simp add: format_parses_Nil)
next
  case (Cons f fs)
  then show ?case by (cases "strptime s f") (simp_all add: format_parses_Cons)
qed

lemma try_patterns_spec:
  "try_patterns ps t = (case pattern_parses ps t of [] \<Rightarrow> None | d # ds \<Rightarrow> Some d)"
proof (induction ps)
  case Nil
  show ?case by (simp add: pattern_parses_Nil)
next
  case (Cons p ps)
  show ?case
  proof (cases "date_candidate p t")
    case None
    with Cons show ?thesis by (simp add: pattern_parses_Cons)
  next
    case (Some s)
    show ?thesis
    proof (cases "format_parses s date_formats")
      case Nil
      with Some Cons show ?thesis by (simp add: pattern_parses_Cons try_formats_spec)
    next
      case (Cons d ds)
      with Some show ?thesis by (simp add: pattern_parses_Cons try_formats_spec)
    qed
  qed
qed

lemma extract_date_spec: "extract_date now txt = spec_extract_date now txt"
  unfolding extract_date_def spec_extract_date_def try_patterns_spec
  by (cases "pattern_parses date_patterns (lower txt)") simp_all

lemma try_patterns_no_candidate:
  "\<forall>pattern \<in> set ps. date_candidate pattern t = None \<Longrightarrow> try_patterns ps t = None"
  by (induction ps) auto

section \<open>Properties of the totals extractors\<close>

lemma re_search_None_matches: "re_search False r t = None \<longleftrightarrow> (\<forall>i. \<not> matches_at r t i)"
  by (auto simp: re_search_def search_from_None_iff matches_at_def)

lemma re_search_Some_least:
  assumes "re_search False r t = Some m"
  shows "\<exists>i. matches_at r t i \<and> (LEAST i. matches_at r t i) = i \<and>
             match_at False r (rev (take i t)) (drop i t) = Some m"
proof -
  from assms search_from_Some[of False r "[]" t m] obtain i where i: "i \<le> length t"
    "match_at False r (rev (take i t)) (drop i t) = Some m"
    "\<forall>j < i. match_at False r (rev (take j t)) (drop j t) = None"
    unfolding re_search_def by auto
  have m: "matches_at r t i" using i(1,2) by (simp add: matches_at_def)
  have "(LEAST i. matches_at r t i) = i"
  proof (rule Least_equality)
    show "matches_at r t i" by (rule m)
  next
    fix y assume "matches_at r t y"
    then show "i \<le> y" using i(3) by (auto simp: matches_at_def not_less[symmetric])
  qed
  with m i(2) show ?thesis by blast
qed

lemma amount_or_zero_spec: "amount_or_zero r t = spec_first_amount r t"
proof (cases "re_search False r t")
  case None
  then have "\<forall>i. \<not> matches_at r t i" by (simp add: re_search_None_matches)
  with None show ?thesis by (simp add: amount_or_zero_def spec_first_amount_def)
next
  case (Some m)
  from re_search_Some_least[OF Some] obtain i where i: "matches_at r t i"
    "(LEAST i. matches_at r t i) = i" "match_at False r (rev (take i t)) (drop i t) = Some m"
    by blast
  from i(1) have "\<exists>i. matches_at r t i" by blast
  with Some i(2,3) show ?thesis by (simp add: amount_or_zero_def spec_first_amount_def)
qed

lemma first_amount_spec: "first_amount ps t = spec_list_amount ps t"
proof (induction ps)
  case Nil
  show ?case by (simp add: spec_list_amount_def)
next
  case (Cons p ps)
  show ?case
  proof (cases "re_search False p t")
    case None
    then have "\<not> (\<exists>i. matches_at p t i)" by (simp add: re_search_None_matches)
    with None Cons show ?thesis by (auto simp: spec_list_amount_def)
  next
    case (Some m)
    then have "\<exists>i. matches_at p t i" using re_search_Some_least by blast
    moreover have "float_group m 1 = spec_first_amount p t"
      using amount_or_zero_spec[of p t] Some by (simp add: amount_or_zero_def)
    ultimately show ?thesis using Some by (simp add: spec_list_amount_def)
  qed
qed

lemma amount_or_zero_value:
  assumes "sets_grp 1 r" "\<forall>a. (1, a) \<in> set (grps r) \<longrightarrow> amount_body False a"
  shows "\<exists>v. amount_or_zero r t = Inr v \<and> 0 \<le> v"
proof (cases "re_search False r t")
  case None
  then show ?thesis by (simp add: amount_or_zero_def)
next
  case (Some m)
  from float_group_amount[OF Some assms] Some show ?thesis by (simp add: amount_or_zero_def)
qed

lemma first_amount_value:
  assumes "\<forall>p \<in> set ps. sets_grp 1 p \<and> (\<forall>a. (1, a) \<in> set (grps p) \<longrightarrow> amount_body False a)"
  shows "\<exists>v. first_amount ps t = Inr v \<and> 0 \<le> v"
  using assms
proof (induction ps)
  case Nil
  show ?case by simp
next
  case (Cons p ps)
  show ?case
  proof (cases "re_search False p t")
    case None
    with Cons show ?thesis by simp
  next
    case (Some m)
    from Cons.prems have "sets_grp 1 p" "\<forall>a. (1, a) \<in> set (grps p) \<longrightarrow> amount_body False a"
      by auto
    from float_group_amount[OF Some this] Some show ?thesis by simp
  qed
qed

lemma scan_totals_groups:
  "sets_grp 1 scan_total_pattern" "\<forall>a. (1, a) \<in> set (grps scan_total_pattern) \<longrightarrow> amount_body False a"
  "sets_grp 1 scan_tax_pattern" "\<forall>a. (1, a) \<in> set (grps scan_tax_pattern) \<longrightarrow> amount_body False a"
  by (auto simp: scan_total_pattern_def scan_tax_pattern_def amount_body_number)

lemma email_totals_groups:
  "\<forall>p \<in> set email_total_patterns.
     sets_grp 1 p \<and> (\<forall>a. (1, a) \<in> set (grps p) \<longrightarrow> amount_body False a)"
  "\<forall>p \<in> set email_tax_patterns.
     sets_grp 1 p \<and> (\<forall>a. (1, a) \<in> set (grps p) \<longrightarrow> amount_body False a)"
  by (auto simp: email_total_patterns_def email_tax_patterns_def amount_tail_def amount_body_number)

section \<open>The end-to-end scenario (C1)\<close>

text \<open>
  The scenario as the specification states it fails on the code: the records of the items
  extracted from \<open>scenario_text\<close> are not the two records listed there. The classifier
  matches whole words, so the name \<open>Bananas\<close> does not hit the keyword \<open>banana\<close>, and the
  name of the second item keeps the digits of the line's trailing amount.
\<close>

theorem scenario_claimed_items_counterexample:
  "map_sum id (map to_record) (extract_items (receipt_lines scenario_text)) \<noteq>
     Inr [\<lparr>rec_name = ''Bananas'', rec_quantity = 1, rec_unit_price = 199 / 100,
           rec_total_price = 199 / 100, rec_category = ''Produce''\<rparr>,
          \<lparr>rec_name = ''Milk'', rec_quantity = 2, rec_unit_price = 399 / 100,
           rec_total_price = 798 / 100, rec_category = ''Dairy & Eggs''\<rparr>]"
  by code_simp

text \<open>
  C1 (amended). The document \<open>scenario_text\<close> has the three lines of the scenario; the
  noise filter discards the third one; the extractor emits exactly two items in line
  order: the first is named \<open>Bananas\<close> with quantity 1.0, unit price 1.99 and total
  price 1.99 and is classified \<open>Other\<close>; the second has quantity 2.0, unit price 3.99 and
  total price 7.98 and is classified \<open>Dairy & Eggs\<close>. The totals extractor run over the
  full text returns the total 9.97 (and the tax 0.0).
\<close>

theorem scenario_items:
  "\<exists>it2.
     receipt_lines scenario_text = [''BANANAS  1.99'', ''MILK 2 @ 3.99  7.98'', ''TOTAL  9.97''] \<and>
     skipped scan_skip_list ''TOTAL  9.97'' \<and>
     extract_items (receipt_lines scenario_text) =
       Inr [\<lparr>name = ''Bananas'', quantity = 1, unit_price = 199 / 100,
             total_price = 199 / 100\<rparr>, it2] \<and>
     categorize_item ''Bananas'' = ''Other'' \<and>
     quantity it2 = 2 \<and> unit_price it2 = 399 / 100 \<and> total_price it2 = 798 / 100 \<and>
     categorize_item (name it2) = ''Dairy & Eggs'' \<and>
     extract_totals scenario_text = Inr (997 / 100, 0)"
  apply (rule exI[of _ "\<lparr>name = ''Milk 798'', quantity = 2, unit_price = 399 / 100,
                          total_price = 798 / 100\<rparr>"])
  apply code_simp
  done

section \<open>The classifier (C2)\<close>

text \<open>
  C2. The rule table lists the categories in the order Produce, Meat & Seafood,
  Dairy & Eggs, Bakery & Bread, Pantry & Canned, Beverages, Frozen, Snacks & Sweets,
  Condiments & Sauces, Other. For every item name, \<open>categorize_item\<close> lower-cases the name
  and returns the first category other than \<open>Other\<close>, in that order, one of whose keywords
  stands in the name as a whole word or contiguous whole phrase between word boundaries
  (\<open>spec_classify\<close>); it returns \<open>Other\<close> when no keyword of any category does. A name in
  which the phrase \<open>ice cream\<close> stands and no keyword of the two categories before
  Dairy & Eggs is classified \<open>Dairy & Eggs\<close>, not \<open>Frozen\<close>.
\<close>

theorem classify_first_keyword_category:
  "map fst categories =
     [''Produce'', ''Meat & Seafood'', ''Dairy & Eggs'', ''Bakery & Bread'', ''Pantry & Canned'',
      ''Beverages'', ''Frozen'', ''Snacks & Sweets'', ''Condiments & Sauces'', ''Other''] \<and>
   categorize_item nm = spec_classify nm \<and>
   ((\<forall>(c, kws) \<in> set categories. \<forall>kw \<in> set kws. \<not> spec_whole_word kw (lower nm)) \<longrightarrow>
      categorize_item nm = ''Other'') \<and>
   (spec_whole_word ''ice cream'' (lower nm) \<and>
    (\<forall>kw \<in> set (concat (map snd (take 2 categories))). \<not> spec_whole_word kw (lower nm)) \<longrightarrow>
      categorize_item nm = ''Dairy & Eggs'')"
proof (intro conjI impI)
  show "map fst categories =
     [''Produce'', ''Meat & Seafood'', ''Dairy & Eggs'', ''Bakery & Bread'', ''Pantry & Canned'',
      ''Beverages'', ''Frozen'', ''Snacks & Sweets'', ''Condiments & Sauces'', ''Other'']"
    by (simp add: categories_def)
  show "categorize_item nm = spec_classify nm" by (rule categorize_spec)
next
  assume none: "\<forall>(c, kws) \<in> set categories. \<forall>kw \<in> set kws. \<not> spec_whole_word kw (lower nm)"
  have "find (\<lambda>(c, kws). \<exists>kw \<in> set kws. spec_whole_word kw (lower nm))
          (filter (\<lambda>(c, kws). c \<noteq> ''Other'') categories) = None"
    using none by (auto simp: find_None_iff)
  then show "categorize_item nm = ''Other''"
    by (simp add: categorize_spec spec_classify_def)
next
  assume "spec_whole_word ''ice cream'' (lower nm) \<and>
    (\<forall>kw \<in> set (concat (map snd (take 2 categories))). \<not> spec_whole_word kw (lower nm))"
  then show "categorize_item nm = ''Dairy & Eggs''" using ice_cream by blast
qed

text \<open>
  The theorem at work: \<open>Vanilla Ice Cream\<close> contains the phrase and no keyword of Produce
  or Meat & Seafood; \<open>Frozen Pizza\<close> and \<open>Unbranded Widget\<close> are the examples of the
  specification.
\<close>

theorem classify_witness:
  "spec_whole_word ''ice cream'' (lower ''Vanilla Ice Cream'') \<and>
   categorize_item ''Vanilla Ice Cream'' = ''Dairy & Eggs'' \<and>
   spec_classify ''Vanilla Ice Cream'' = ''Dairy & Eggs'' \<and>
   spec_classify ''Frozen Pizza'' = ''Frozen'' \<and>
   spec_classify ''Unbranded Widget'' = ''Other''"
proof -
  let ?x = "lower ''Vanilla Ice Cream''"
  have we: "word_ended ''ice cream''" by code_simp
  have "keyword_hit ?x ''ice cream''" by code_simp
  then have a: "spec_whole_word ''ice cream'' ?x" using keyword_hit_iff[OF we] by simp
  have "list_all (\<lambda>kw. word_ended kw \<and> \<not> keyword_hit ?x kw)
          (concat (map snd (take 2 categories)))" by code_simp
  then have b: "\<forall>kw \<in> set (concat (map snd (take 2 categories))). \<not> spec_whole_word kw ?x"
    using keyword_hit_iff by (auto simp: list_all_iff)
  from classify_first_keyword_category[of "''Vanilla Ice Cream''"] a b
  have c: "categorize_item ''Vanilla Ice Cream'' = ''Dairy & Eggs''"
    and d: "categorize_item ''Vanilla Ice Cream'' = spec_classify ''Vanilla Ice Cream''"
    by blast+
  have e: "categorize_item ''Frozen Pizza'' = ''Frozen''" by code_simp
  have f: "categorize_item ''Unbranded Widget'' = ''Other''" by code_simp
  from classify_first_keyword_category[of "''Frozen Pizza''"] e
  have g: "spec_classify ''Frozen Pizza'' = ''Frozen''" by simp
  from classify_first_keyword_category[of "''Unbranded Widget''"] f
  have h: "spec_classify ''Unbranded Widget'' = ''Other''" by simp
  from a c d g h show ?thesis by simp
qed

section \<open>Total price of an explicit quantity (C3)\<close>




section \<open>Line-item extraction can raise (C4)\<close>

text \<open>
  C4. The email path divides the total by the quantity whenever no unit price was
  captured; a line whose quantity is 0 makes this division raise
  \<open>ZeroDivisionError\<close>, and the extraction of the whole body ends with that error. The
  scan path's extraction returns a list of items for every list of lines.
\<close>

theorem email_zero_quantity_raises:
  "extract_items_from_email ''0 x Milk 3.99'' = Inl ZeroDivisionError \<and>
   (\<exists>its. extract_items lines = Inr its)"
proof
  show "extract_items_from_email ''0 x Milk 3.99'' = Inl ZeroDivisionError" by code_simp
  show "\<exists>its. extract_items lines = Inr its"
    unfolding extract_items_def by (rule extract_items_loop_returns)
qed

section \<open>The two name normalizers (C5)\<close>

text \<open>
  C5. The scan path's normalizer strips neither a leading number nor a trailing unit
  (it removes punctuation instead), so the two normalizers differ: on \<open>12 Eggs\<close> the scan
  path keeps the number that the email path strips, and on \<open>Cheddar 8 oz\<close> it keeps the
  unit. Both map the empty string to the empty string.
\<close>

theorem normalizers_differ:
  "scan_clean_item_name ''12 Eggs'' = ''12 Eggs'' \<and>
   email_clean_item_name ''12 Eggs'' = ''Eggs'' \<and>
   scan_clean_item_name ''Cheddar 8 oz'' = ''Cheddar 8 Oz'' \<and>
   email_clean_item_name ''Cheddar 8 oz'' = ''Cheddar 8'' \<and>
   scan_clean_item_name [] = [] \<and> email_clean_item_name [] = []"
  by code_simp

section \<open>The totals extractors (C6)\<close>

text \<open>
  The claim as stated fails on the email path: the patterns of a family are tried in
  the order of the list, so the first occurrence of the family in document order is not
  always the one that is returned. Here \<open>amount due\<close> comes first in the document (5.00),
  and the extractor returns the amount after \<open>total\<close> (6.00).
\<close>

theorem email_priority_counterexample:
  "extract_totals_from_email ''amount due: 5.00\<newline>total: 6.00'' = Inr (6, 0) \<and>
   spec_first_amount (alts email_total_patterns) (lower ''amount due: 5.00\<newline>total: 6.00'') = Inr 5"
proof -
  have "amount_or_zero (alts email_total_patterns) (lower ''amount due: 5.00\<newline>total: 6.00'')
          = Inr 5" by code_simp
  moreover have "extract_totals_from_email ''amount due: 5.00\<newline>total: 6.00'' = Inr (6, 0)"
    by code_simp
  ultimately show ?thesis by (simp add: amount_or_zero_spec)
qed

text \<open>
  C6 (amended). Both totals extractors search the whole lower-cased text, never raise,
  and return amounts that are not negative. The scan path uses one pattern for the
  total (\<open>total\<close>, \<open>amount due\<close> or \<open>balance\<close>, optional separators, a currency-shaped
  number) and one for the tax (\<open>tax\<close> or \<open>sales tax\<close>), and returns for each the amount
  of its first occurrence in document order, or 0.0 when it matches nowhere. The email
  path has an ordered list of patterns for the total (\<open>total\<close> with an optional \<open>order\<close>,
  \<open>amount due\<close> or \<open>amount charged\<close>, \<open>grand total\<close>) and one for the tax (\<open>tax\<close> with an
  optional \<open>sales\<close>, \<open>estimated tax\<close>); for each list it takes the first pattern of
  the list that matches anywhere and returns the amount of that pattern's first
  occurrence, or 0.0 when no pattern of the list matches. When no tax pattern matches,
  the tax is 0.0. The text \<open>TOTAL: $45.67\<close> yields the total 45.67 and the tax 0.0 on
  both paths.
\<close>

theorem totals_first_match:
  "(\<exists>tot tax. extract_totals txt = Inr (tot, tax) \<and> 0 \<le> tot \<and> 0 \<le> tax \<and>
      spec_first_amount scan_total_pattern (lower txt) = Inr tot \<and>
      spec_first_amount scan_tax_pattern (lower txt) = Inr tax) \<and>
   (\<exists>tot tax. extract_totals_from_email body = Inr (tot, tax) \<and> 0 \<le> tot \<and> 0 \<le> tax \<and>
      spec_list_amount email_total_patterns (lower body) = Inr tot \<and>
      spec_list_amount email_tax_patterns (lower body) = Inr tax) \<and>
   ((\<forall>i. \<not> matches_at scan_tax_pattern (lower txt) i) \<longrightarrow>
      (\<exists>tot. extract_totals txt = Inr (tot, 0))) \<and>
   ((\<forall>pattern \<in> set email_tax_patterns. \<forall>i. \<not> matches_at pattern (lower body) i) \<longrightarrow>
      (\<exists>tot. extract_totals_from_email body = Inr (tot, 0))) \<and>
   extract_totals ''TOTAL: $45.67'' = Inr (4567 / 100, 0) \<and>
   extract_totals_from_email ''TOTAL: $45.67'' = Inr (4567 / 100, 0)"
proof -
  obtain tot where tot: "amount_or_zero scan_total_pattern (lower txt) = Inr tot" "0 \<le> tot"
    using amount_or_zero_value[OF scan_totals_groups(1,2)] by blast
  obtain tax where tax: "amount_or_zero scan_tax_pattern (lower txt) = Inr tax" "0 \<le> tax"
    using amount_or_zero_value[OF scan_totals_groups(3,4)] by blast
  have st: "extract_totals txt = Inr (tot, tax)" using tot tax by (simp add: extract_totals_def)
  have A: "\<exists>tot tax. extract_totals txt = Inr (tot, tax) \<and> 0 \<le> tot \<and> 0 \<le> tax \<and>
      spec_first_amount scan_total_pattern (lower txt) = Inr tot \<and>
      spec_first_amount scan_tax_pattern (lower txt) = Inr tax"
    using st tot tax by (auto simp: amount_or_zero_spec)
  obtain etot where etot: "first_amount email_total_patterns (lower body) = Inr etot" "0 \<le> etot"
    using first_amount_value[OF email_totals_groups(1)] by blast
  obtain etax where etax: "first_amount email_tax_patterns (lower body) = Inr etax" "0 \<le> etax"
    using first_amount_value[OF email_totals_groups(2)] by blast
  have et: "extract_totals_from_email body = Inr (etot, etax)"
    using etot etax by (simp add: extract_totals_from_email_def)
  have B: "\<exists>tot tax. extract_totals_from_email body = Inr (tot, tax) \<and> 0 \<le> tot \<and> 0 \<le> tax \<and>
      spec_list_amount email_total_patterns (lower body) = Inr tot \<and>
      spec_list_amount email_tax_patterns (lower body) = Inr tax"
    using et etot etax by (auto simp: first_amount_spec)
  have C: "(\<forall>i. \<not> matches_at scan_tax_pattern (lower txt) i) \<longrightarrow>
      (\<exists>tot. extract_totals txt = Inr (tot, 0))"
  proof
    assume "\<forall>i. \<not> matches_at scan_tax_pattern (lower txt) i"
    then have "tax = 0" using tax(1) by (simp add: amount_or_zero_spec spec_first_amount_def)
    with st show "\<exists>tot. extract_totals txt = Inr (tot, 0)" by blast
  qed
  have D: "(\<forall>pattern \<in> set email_tax_patterns. \<forall>i. \<not> matches_at pattern (lower body) i) \<longrightarrow>
      (\<exists>tot. extract_totals_from_email body = Inr (tot, 0))"
  proof
    assume "\<forall>pattern \<in> set email_tax_patterns. \<forall>i. \<not> matches_at pattern (lower body) i"
    then have "find (\<lambda>pattern. \<exists>i. matches_at pattern (lower body) i) email_tax_patterns = None"
      by (simp add: find_None_iff)
    then have "etax = 0" using etax(1) by (simp add: first_amount_spec spec_list_amount_def)
    with et show "\<exists>tot. extract_totals_from_email body = Inr (tot, 0)" by blast
  qed
  have E: "extract_totals ''TOTAL: $45.67'' = Inr (4567 / 100, 0)" by code_simp
  have F: "extract_totals_from_email ''TOTAL: $45.67'' = Inr (4567 / 100, 0)" by code_simp
  from A B C D E F show ?thesis by (intro conjI)
qed

text \<open>The theorem at work: no tax on either path, and the priority of the email list.\<close>

theorem totals_first_match_witness:
  "re_search False scan_tax_pattern (lower ''TOTAL: $45.67'') = None \<and>
   (\<exists>tot. extract_totals ''TOTAL: $45.67'' = Inr (tot, 0)) \<and>
   spec_first_amount scan_total_pattern (lower ''TOTAL: $45.67'') = Inr (4567 / 100) \<and>
   list_all (\<lambda>pattern. re_search False pattern
                (lower ''Amount charged: $20.00\<newline>Order Total: $18.50'') = None)
            email_tax_patterns \<and>
   (\<exists>tot. extract_totals_from_email ''Amount charged: $20.00\<newline>Order Total: $18.50'' =
            Inr (tot, 0)) \<and>
   spec_list_amount email_total_patterns
     (lower ''Amount charged: $20.00\<newline>Order Total: $18.50'') = Inr (37 / 2)"
proof -
  let ?t = "''TOTAL: $45.67''"
  let ?b = "''Amount charged: $20.00\<newline>Order Total: $18.50''"
  have a: "re_search False scan_tax_pattern (lower ?t) = None" by code_simp
  then have a': "\<forall>i. \<not> matches_at scan_tax_pattern (lower ?t) i"
    by (simp add: re_search_None_matches)
  have b: "list_all (\<lambda>pattern. re_search False pattern (lower ?b) = None) email_tax_patterns"
    by code_simp
  then have b': "\<forall>pattern \<in> set email_tax_patterns. \<forall>i. \<not> matches_at pattern (lower ?b) i"
    by (simp add: list_all_iff re_search_None_matches)
  have c: "extract_totals_from_email ?b = Inr (37 / 2, 0)" by code_simp
  note inst = totals_first_match[of ?t ?b]
  from inst a' have 1: "\<exists>tot. extract_totals ?t = Inr (tot, 0)" by blast
  from inst have "extract_totals ?t = Inr (4567 / 100, 0)" by blast
  moreover from inst obtain tot tax where "extract_totals ?t = Inr (tot, tax)"
    "spec_first_amount scan_total_pattern (lower ?t) = Inr tot" by blast
  ultimately have 2: "spec_first_amount scan_total_pattern (lower ?t) = Inr (4567 / 100)" by simp
  from inst b' have 3: "\<exists>tot. extract_totals_from_email ?b = Inr (tot, 0)" by blast
  from inst obtain etot etax where "extract_totals_from_email ?b = Inr (etot, etax)"
    "spec_list_amount email_total_patterns (lower ?b) = Inr etot" by blast
  with c have 4: "spec_list_amount email_total_patterns (lower ?b) = Inr (37 / 2)" by simp
  from a 1 2 b 3 4 show ?thesis by blast
qed

section \<open>Signs of the extracted numbers (C7)\<close>




section \<open>The date extractor (C8)\<close>

text \<open>
  The claim as stated fails: in \<open>2024-01-15\<close> the first pattern that matches is the
  first of the list, on the substring \<open>24-01-15\<close>, which parses under none of the
  formats; the extractor does not return the wall-clock time but goes on to the second
  pattern and returns 15 January 2024.
\<close>

theorem date_fallthrough_counterexample:
  "date_candidate (date_patterns ! 0) (lower ''2024-01-15'') = Some ''24-01-15'' \<and>
   try_formats ''24-01-15'' date_formats = None \<and>
   extract_date now0 ''2024-01-15'' =
     \<lparr>dt_year = 2024, dt_month = 1, dt_day = 15, dt_hour = 0, dt_minute = 0, dt_second = 0\<rparr> \<and>
   extract_date now0 ''2024-01-15'' \<noteq> now0"
  by code_simp

text \<open>
  C8 (amended). For every scan text the date extractor tries the ordered patterns
  against the lower-cased text; for each pattern that matches, in order, it parses the
  matched substring against the ordered format list and returns the first successful
  parse; a pattern whose match parses under no format is followed by the next
  pattern; when no pattern yields a parse (in particular when no pattern matches) it
  returns the wall-clock time. The input \<open>01/15/2024\<close> parses to 15 January 2024 under
  the format \<open>%m/%d/%Y\<close>.
\<close>

theorem extract_date_first_parse:
  "extract_date now txt = spec_extract_date now txt \<and>
   ((\<forall>pattern \<in> set date_patterns. date_candidate pattern (lower txt) = None) \<longrightarrow>
      extract_date now txt = now) \<and>
   strptime ''01/15/2024'' [Dm, DLit ''/'', Dd, DLit ''/'', DY] =
     Inr \<lparr>dt_year = 2024, dt_month = 1, dt_day = 15,
          dt_hour = 0, dt_minute = 0, dt_second = 0\<rparr> \<and>
   extract_date now ''01/15/2024'' =
     \<lparr>dt_year = 2024, dt_month = 1, dt_day = 15, dt_hour = 0, dt_minute = 0, dt_second = 0\<rparr>"
proof -
  have A: "extract_date now txt = spec_extract_date now txt" by (rule extract_date_spec)
  have B: "(\<forall>pattern \<in> set date_patterns. date_candidate pattern (lower txt) = None) \<longrightarrow>
      extract_date now txt = now"
    by (simp add: extract_date_def try_patterns_no_candidate)
  have C: "strptime ''01/15/2024'' [Dm, DLit ''/'', Dd, DLit ''/'', DY] =
     Inr \<lparr>dt_year = 2024, dt_month = 1, dt_day = 15,
          dt_hour = 0, dt_minute = 0, dt_second = 0\<rparr>"
    by code_simp
  have "try_patterns date_patterns (lower ''01/15/2024'') =
     Some \<lparr>dt_year = 2024, dt_month = 1, dt_day = 15, dt_hour = 0, dt_minute = 0, dt_second = 0\<rparr>"
    by code_simp
  then have D: "extract_date now ''01/15/2024'' =
     \<lparr>dt_year = 2024, dt_month = 1, dt_day = 15, dt_hour = 0, dt_minute = 0, dt_second = 0\<rparr>"
    by (simp add: extract_date_def)
  from A B C D show ?thesis by (intro conjI)
qed

text \<open>The theorem at work on a text without a date and on a text with a written-out month.\<close>

theorem extract_date_first_parse_witness:
  "list_all (\<lambda>pattern. date_candidate pattern (lower ''no date here'') = None) date_patterns \<and>
   extract_date now0 ''no date here'' = now0 \<and>
   spec_extract_date now0 ''Purchased 15 January 2024 at 10:32'' =
     \<lparr>dt_year = 2024, dt_month = 1, dt_day = 15, dt_hour = 0, dt_minute = 0, dt_second = 0\<rparr>"
proof -
  have a: "list_all (\<lambda>pattern. date_candidate pattern (lower ''no date here'') = None) date_patterns"
    by code_simp
  then have b: "\<forall>pattern \<in> set date_patterns. date_candidate pattern (lower ''no date here'') = None"
    by (simp add: list_all_iff)
  have c: "extract_date now0 ''Purchased 15 January 2024 at 10:32'' =
     \<lparr>dt_year = 2024, dt_month = 1, dt_day = 15, dt_hour = 0, dt_minute = 0, dt_second = 0\<rparr>"
    by code_simp
  from extract_date_first_parse[of now0 "''no date here''"] b
  have d: "extract_date now0 ''no date here'' = now0" by blast
  from extract_date_first_parse[of now0 "''Purchased 15 January 2024 at 10:32''"] c
  have e: "spec_extract_date now0 ''Purchased 15 January 2024 at 10:32'' =
     \<lparr>dt_year = 2024, dt_month = 1, dt_day = 15, dt_hour = 0, dt_minute = 0, dt_second = 0\<rparr>"
    by simp
  from a d e show ?thesis by blast
qed

section \<open>Noise and the empty text (C9)\<close>



section \<open>The store identifier (C10)\<close>

text \<open>
  C10. On both paths the store identifier goes through its pattern table in the order
  of the table over the lower-cased text (on the email path: subject, sender and body
  joined by spaces) and returns the title-cased name of the first entry whose pattern
  matches anywhere, or \<open>Unknown Store\<close> when no pattern matches (\<open>spec_identify\<close>); it is a
  total function and has no error result. Every text that begins with
  \<open>WALMART SUPERCENTER #123\<close> yields \<open>Walmart\<close>.
\<close>

theorem store_first_pattern:
  "extract_store_name txt = spec_identify scan_store_patterns (lower txt) \<and>
   identify_store body subject sender =
     spec_identify email_store_patterns
       (lower (py_str subject @ '' '' @ py_str sender @ '' '' @ body)) \<and>
   extract_store_name (''WALMART SUPERCENTER #123'' @ tail) = ''Walmart'' \<and>
   identify_store (''WALMART SUPERCENTER #123'' @ tail) subject sender = ''Walmart''"
proof -
  have A: "extract_store_name t = spec_identify scan_store_patterns (lower t)" for t
    unfolding extract_store_name_def
    by (rule first_store_spec[OF scan_store_patterns_anchor_free])
  have B: "identify_store b su se =
     spec_identify email_store_patterns (lower (py_str su @ '' '' @ py_str se @ '' '' @ b))"
    for b su se
    unfolding identify_store_def
    by (rule first_store_spec[OF email_store_patterns_anchor_free])
  have W1: "spec_identify scan_store_patterns t = ''Walmart''"
    if "occurs_in False (Alt (Lit ''walmart'') (Lit ''wal-mart'')) t" for t
    using that title_walmart by (simp add: spec_identify_def scan_store_patterns_def)
  have W2: "spec_identify email_store_patterns t = ''Walmart''"
    if "occurs_in False (Alt (Lit ''walmart'') (Lit ''wal-mart'')) t" for t
    using that title_walmart by (simp add: spec_identify_def email_store_patterns_def)
  have "lower (''WALMART SUPERCENTER #123'' @ tail) =
          [] @ lower ''WALMART SUPERCENTER #123'' @ lower tail"
    by (simp only: lower_append append_Nil)
  then have C: "extract_store_name (''WALMART SUPERCENTER #123'' @ tail) = ''Walmart''"
    unfolding A using W1[OF walmart_occurs[of "[]" "lower tail"]] by simp
  have "lower (py_str subject @ '' '' @ py_str sender @ '' '' @ ''WALMART SUPERCENTER #123'' @ tail)
        = (lower (py_str subject) @ lower '' '' @ lower (py_str sender) @ lower '' '') @
          lower ''WALMART SUPERCENTER #123'' @ lower tail"
    by (simp only: lower_append append_assoc)
  then have D: "identify_store (''WALMART SUPERCENTER #123'' @ tail) subject sender = ''Walmart''"
    unfolding B
    using W2[OF walmart_occurs[of "lower (py_str subject) @ lower '' '' @ lower (py_str sender) @ lower '' ''"
                                  "lower tail"]]
    by simp
  from A B C D show ?thesis by blast
qed

text \<open>The theorem at work: a later entry of the table, no entry, and the email path.\<close>

theorem store_first_pattern_witness:
  "spec_identify scan_store_patterns (lower ''Thanks for shopping at TRADER  JOE aldi'') =
     ''Trader Joe'' \<and>
   spec_identify scan_store_patterns (lower ''corner shop'') = ''Unknown Store'' \<and>
   spec_identify email_store_patterns
     (lower (py_str (Some ''Your Amazon order'') @ '' '' @ py_str None @ '' '' @ ''kroger'')) =
     ''Amazon''"
proof -
  have a: "extract_store_name ''Thanks for shopping at TRADER  JOE aldi'' = ''Trader Joe''"
    by code_simp
  have b: "extract_store_name ''corner shop'' = ''Unknown Store''" by code_simp
  have c: "identify_store ''kroger'' (Some ''Your Amazon order'') None = ''Amazon''" by code_simp
  from store_first_pattern[of "''Thanks for shopping at TRADER  JOE aldi''" "''kroger''"
      "Some ''Your Amazon order''" None "[]"] a
  have 1: "spec_identify scan_store_patterns
             (lower ''Thanks for shopping at TRADER  JOE aldi'') = ''Trader Joe''" by simp
  from store_first_pattern[of "''corner shop''" "''kroger''" "Some ''Your Amazon order''" None "[]"] b c
  have 2: "spec_identify scan_store_patterns (lower ''corner shop'') = ''Unknown Store''"
    and 3: "spec_identify email_store_patterns
     (lower (py_str (Some ''Your Amazon order'') @ '' '' @ py_str None @ '' '' @ ''kroger'')) =
     ''Amazon''" by simp_all
  from 1 2 3 show ?thesis by blast
qed


end
